theory Spec2Isabelle
  imports Complex_Main "HOL-Library.Word" "HOL-Library.Log_Nat"
begin

section \<open>Strings\<close>

text \<open>
  A JavaScript string is a sequence of 16-bit code units.  The regular expressions of
  \<^verbatim>\<open>index.ts\<close> carry no flag, so they work on code units too.
\<close>

type_synonym jschar = "16 word"
type_synonym jsstring = "jschar list"

text \<open>The class \<^verbatim>\<open>\d\<close>: the ten ASCII digits.\<close>

definition is_digit :: "jschar \<Rightarrow> bool" where
  "is_digit c = (0x30 \<le> c \<and> c \<le> 0x39)"

text \<open>
  Line terminators (LF, CR, LS, PS): the code units that \<^verbatim>\<open>.\<close> refuses when the
  regular expression has no \<^verbatim>\<open>s\<close> flag.
\<close>

definition is_line_terminator :: "jschar \<Rightarrow> bool" where
  "is_line_terminator c = (c = 0x0A \<or> c = 0x0D \<or> c = 0x2028 \<or> c = 0x2029)"

text \<open>
  The class \<^verbatim>\<open>\s\<close>, which is also what \<^verbatim>\<open>String.prototype.trim\<close> strips: the
  white space code points (TAB, VT, FF, SP, NBSP, ZWNBSP and the space separators) and
  the line terminators.
\<close>

definition is_space :: "jschar \<Rightarrow> bool" where
  "is_space c =
     (c = 0x09 \<or> c = 0x0B \<or> c = 0x0C \<or> c = 0x20 \<or> c = 0xA0 \<or> c = 0x1680
      \<or> (0x2000 \<le> c \<and> c \<le> 0x200A) \<or> c = 0x202F \<or> c = 0x205F \<or> c = 0x3000
      \<or> c = 0xFEFF \<or> is_line_terminator c)"

definition dot :: jschar where
  "dot = 0x2E"

text \<open>\<^verbatim>\<open>s.trim()\<close>.\<close>

definition trim :: "jsstring \<Rightarrow> jsstring" where
  "trim s = rev (dropWhile is_space (rev (dropWhile is_space s)))"

section \<open>The input parser\<close>

subsection \<open>Backtracking matchers\<close>

text \<open>
  A matcher maps the input that is left to the list of its possible matches, each a pair
  (matched text, remaining input), in the order in which a backtracking engine tries
  them: greedy quantifiers offer the longest match first.
\<close>

type_synonym matcher = "jsstring \<Rightarrow> (jsstring \<times> jsstring) list"

text \<open>\<^verbatim>\<open>X*\<close> for a character class \<open>X\<close>.\<close>

fun star_class :: "(jschar \<Rightarrow> bool) \<Rightarrow> matcher" where
  "star_class P [] = [([], [])]"
| "star_class P (c # cs) =
     (if P c then map (\<lambda>(m, r). (c # m, r)) (star_class P cs) else []) @ [([], c # cs)]"

text \<open>\<^verbatim>\<open>X+\<close>.\<close>

fun plus_class :: "(jschar \<Rightarrow> bool) \<Rightarrow> matcher" where
  "plus_class P [] = []"
| "plus_class P (c # cs) =
     (if P c then map (\<lambda>(m, r). (c # m, r)) (star_class P cs) else [])"

text \<open>One code unit of a class.\<close>

fun one_class :: "(jschar \<Rightarrow> bool) \<Rightarrow> matcher" where
  "one_class P [] = []"
| "one_class P (c # cs) = (if P c then [([c], cs)] else [])"

text \<open>Concatenation: every match of the first, continued by every match of the second.\<close>

definition seq :: "matcher \<Rightarrow> matcher \<Rightarrow> matcher" where
  "seq m1 m2 s =
     concat (map (\<lambda>(a, r). map (\<lambda>(b, r'). (a @ b, r')) (m2 r)) (m1 s))"

text \<open>\<^verbatim>\<open>(?:m)?\<close>: the group first, the empty match last.\<close>

definition opt :: "matcher \<Rightarrow> matcher" where
  "opt m s = m s @ [([], s)]"

text \<open>\<^verbatim>\<open>\d+(?:\.\d{1,2})?\<close>, the first capture group.\<close>

definition number :: matcher where
  "number =
     seq (plus_class is_digit)
       (opt (seq (one_class (\<lambda>c. c = dot))
               (seq (one_class is_digit) (opt (one_class is_digit)))))"

text \<open>
  \<^verbatim>\<open>text.match(/^(\d+(?:\.\d{1,2})?)\s+(.+)$/)\<close>: the two capture groups of the
  first way of matching that reaches the end of the input, or \<open>None\<close> for \<^verbatim>\<open>null\<close>.
  The pattern is anchored at the start, so only position 0 is tried.
\<close>

definition expense_matches :: "jsstring \<Rightarrow> (jsstring \<times> jsstring) list" where
  "expense_matches text =
     concat (map (\<lambda>(g1, r1).
       concat (map (\<lambda>(ws, r2).
         concat (map (\<lambda>(g2, r3). if r3 = [] then [(g1, g2)] else [])
           (plus_class (\<lambda>c. \<not> is_line_terminator c) r2)))
         (plus_class is_space r1)))
       (number text))"

definition expense_match :: "jsstring \<Rightarrow> (jsstring \<times> jsstring) option" where
  "expense_match text = (case expense_matches text of [] \<Rightarrow> None | m # _ \<Rightarrow> Some m)"

subsection \<open>Numbers\<close>

text \<open>The value of a string of decimal digits.\<close>

definition digits_value :: "jsstring \<Rightarrow> nat" where
  "digits_value ds = foldl (\<lambda>a c. 10 * a + unat (c - 0x30)) 0 ds"

text \<open>The number written with integer digits \<open>ds\<close> and fraction digits \<open>fs\<close>.\<close>

definition decimal_value :: "jsstring \<Rightarrow> jsstring \<Rightarrow> rat" where
  "decimal_value ds fs = of_nat (digits_value ds) + of_nat (digits_value fs) / 10 ^ length fs"

text \<open>
  A JavaScript number is a double: a rational that the binary64 format holds, or one of
  the two infinities (\<^verbatim>\<open>NaN\<close> is kept apart, as a missing number).
\<close>

datatype number = Finite rat | Infinity | MinusInfinity

text \<open>The exponent \<open>e\<close> with \<open>2^e \<le> x < 2^(e+1)\<close>, for a positive \<open>x\<close>.\<close>

definition binary_exponent :: "rat \<Rightarrow> int" where
  "binary_exponent x =
     (let (p, q) = quotient_of x;
          k = bitlen p - bitlen q
      in if of_int q * 2 powi k \<le> (of_int p :: rat) then k else k - 1)"

text \<open>Rounding to the nearest integer, a tie going to the even one.\<close>

definition round_half_even :: "rat \<Rightarrow> int" where
  "round_half_even x =
     (let f = \<lfloor>x\<rfloor>; r = x - of_int f
      in if r < 1 / 2 then f else if 1 / 2 < r then f + 1 else if even f then f else f + 1)"

text \<open>
  The double nearest to a positive rational: 53 significant bits, so the doubles around
  \<open>x\<close> are the multiples of \<open>2^(e-52)\<close>, with \<open>e\<close> not below \<open>-1022\<close> (the subnormal
  range); a tie goes to the even multiple, and what rounds to \<open>2^1024\<close> or beyond is
  \<^verbatim>\<open>Infinity\<close>.
\<close>

definition nearest_positive :: "rat \<Rightarrow> number" where
  "nearest_positive x =
     (let e = max (binary_exponent x) (- 1022);
          ulp = 2 powi (e - 52);
          y = of_int (round_half_even (x / ulp)) * ulp
      in if 2 powi 1024 \<le> y then Infinity else Finite y)"

definition nearest_double :: "rat \<Rightarrow> number" where
  "nearest_double x =
     (if x = 0 then Finite 0
      else if 0 < x then nearest_positive x
      else (case nearest_positive (- x) of
              Finite y \<Rightarrow> Finite (- y)
            | Infinity \<Rightarrow> MinusInfinity
            | MinusInfinity \<Rightarrow> Infinity))"

text \<open>\<^verbatim>\<open>n <= 0\<close> on numbers.\<close>

definition le_zero :: "number \<Rightarrow> bool" where
  "le_zero n = (case n of Finite y \<Rightarrow> y \<le> 0 | Infinity \<Rightarrow> False | MinusInfinity \<Rightarrow> True)"

text \<open>
  \<^verbatim>\<open>parseFloat\<close> on a string of digits and dots: the longest prefix of the form
  digits, then optionally a dot and digits, read as a decimal and rounded to the nearest
  double, as the engine does; \<open>None\<close> is \<^verbatim>\<open>NaN\<close>.  The first capture group holds
  nothing but digits and one dot, so signs, exponents, leading white space and the word
  \<^verbatim>\<open>Infinity\<close> are left out.
\<close>

definition parseFloat :: "jsstring \<Rightarrow> number option" where
  "parseFloat s =
     (let ip = takeWhile is_digit s;
          r = dropWhile is_digit s;
          fp = (case r of [] \<Rightarrow> [] | c # r' \<Rightarrow> if c = dot then takeWhile is_digit r' else [])
      in if ip = [] \<and> fp = [] then None else Some (nearest_double (decimal_value ip fp)))"

subsection \<open>parseExpenseInput\<close>

record parsed =
  amount :: number
  description :: jsstring

definition parseExpenseInput :: "jsstring \<Rightarrow> parsed option" where
  "parseExpenseInput text =
     (case expense_match text of
        None \<Rightarrow> None
      | Some (g1, g2) \<Rightarrow>
          (case parseFloat g1 of
             None \<Rightarrow> None
           | Some a \<Rightarrow>
               if le_zero a then None else Some \<lparr>amount = a, description = trim g2\<rparr>))"


text \<open>
  The grammar in words: a number is integer digits \<open>ds\<close>, followed by a dot and the
  fraction digits \<open>fs\<close> when there are any; it has at least one integer digit and at
  most two fraction digits.
\<close>

definition decimal_text :: "jsstring \<Rightarrow> jsstring \<Rightarrow> jsstring" where
  "decimal_text ds fs = ds @ (if fs = [] then [] else dot # fs)"

definition decimal_shape :: "jsstring \<Rightarrow> jsstring \<Rightarrow> bool" where
  "decimal_shape ds fs =
     (ds \<noteq> [] \<and> list_all is_digit ds \<and> list_all is_digit fs \<and> length fs \<le> 2)"

section \<open>String helpers of the handlers\<close>

definition starts_with :: "jsstring \<Rightarrow> jsstring \<Rightarrow> bool" where
  "starts_with s p = (take (length p) s = p)"

text \<open>\<^verbatim>\<open>s.split(c)\<close> for a separator of one code unit; the result is never empty.\<close>

fun split_on :: "jschar \<Rightarrow> jsstring \<Rightarrow> jsstring list" where
  "split_on c [] = [[]]"
| "split_on c (x # xs) =
     (if x = c then [] # split_on c xs
      else (case split_on c xs of [] \<Rightarrow> [[x]] | p # ps \<Rightarrow> (x # p) # ps))"

text \<open>
  \<^verbatim>\<open>s.split(/\s+/)\<close>: every maximal run of white space separates two pieces; a run at the
  start or at the end leaves an empty piece there.
\<close>

function split_ws :: "jsstring \<Rightarrow> jsstring list" where
  "split_ws [] = [[]]"
| "split_ws (x # xs) =
     (if is_space x then [] # split_ws (dropWhile is_space xs)
      else (case split_ws xs of [] \<Rightarrow> [[x]] | p # ps \<Rightarrow> (x # p) # ps))"
  by pat_completeness auto
termination
  by (relation "measure length") (auto simp: length_dropWhile_le le_imp_less_Suc)

text \<open>\<^verbatim>\<open>pieces.join(sep)\<close>.\<close>

fun join :: "jsstring \<Rightarrow> jsstring list \<Rightarrow> jsstring" where
  "join sep [] = []"
| "join sep [p] = p"
| "join sep (p # q # ps) = p @ sep @ join sep (q # ps)"

text \<open>\<^verbatim>\<open>xs[i]\<close> for a natural index: \<open>None\<close> is \<^verbatim>\<open>undefined\<close>.\<close>

definition nth_opt :: "'a list \<Rightarrow> nat \<Rightarrow> 'a option" where
  "nth_opt xs n = (if n < length xs then Some (xs ! n) else None)"

text \<open>
  \<^verbatim>\<open>parseInt(s)\<close> without a radix: leading white space, a sign, the prefix \<^verbatim>\<open>0x\<close> for
  base 16, then the longest run of digits of the base; \<open>None\<close> is \<^verbatim>\<open>NaN\<close>.  The result
  is kept as an exact integer; a double is exact up to \<open>2^53\<close>, far beyond the length of
  any array.
\<close>

definition digit_of :: "jschar \<Rightarrow> nat option" where
  "digit_of c =
     (if 0x30 \<le> c \<and> c \<le> 0x39 then Some (unat (c - 0x30))
      else if 0x61 \<le> c \<and> c \<le> 0x7A then Some (unat (c - 0x61) + 10)
      else if 0x41 \<le> c \<and> c \<le> 0x5A then Some (unat (c - 0x41) + 10)
      else None)"

definition radix_digit :: "nat \<Rightarrow> jschar \<Rightarrow> bool" where
  "radix_digit R c = (case digit_of c of None \<Rightarrow> False | Some v \<Rightarrow> v < R)"

definition radix_value :: "nat \<Rightarrow> jsstring \<Rightarrow> nat" where
  "radix_value R ds = foldl (\<lambda>a c. R * a + (case digit_of c of None \<Rightarrow> 0 | Some v \<Rightarrow> v)) 0 ds"

definition parseInt :: "jsstring \<Rightarrow> int option" where
  "parseInt s =
     (let s1 = dropWhile is_space s;
          neg = (s1 \<noteq> [] \<and> hd s1 = 0x2D);
          s2 = (if s1 \<noteq> [] \<and> (hd s1 = 0x2D \<or> hd s1 = 0x2B) then tl s1 else s1);
          hex = (starts_with s2 [0x30, 0x78] \<or> starts_with s2 [0x30, 0x58]);
          R = (if hex then 16 else 10);
          s3 = (if hex then drop 2 s2 else s2);
          ds = takeWhile (radix_digit R) s3
      in if ds = [] then None
         else Some (if neg then - int (radix_value R ds) else int (radix_value R ds)))"

text \<open>\<^verbatim>\<open>parseInt(data.split("_")[1])\<close>, the index carried by a button's payload.\<close>

definition payload_index :: "jsstring \<Rightarrow> int option" where
  "payload_index data =
     (case nth_opt (split_on 0x5F data) 1 of None \<Rightarrow> None | Some s \<Rightarrow> parseInt s)"

text \<open>\<^verbatim>\<open>xs[i]\<close> for a parsed index: \<^verbatim>\<open>undefined\<close> for \<^verbatim>\<open>NaN\<close> and outside the array.\<close>

definition js_index :: "'a list \<Rightarrow> int option \<Rightarrow> 'a option" where
  "js_index xs idx =
     (case idx of
        None \<Rightarrow> None
      | Some i \<Rightarrow> if 0 \<le> i \<and> i < int (length xs) then Some (xs ! nat i) else None)"

text \<open>\<^verbatim>\<open>idx >= n\<close> on numbers: false for \<^verbatim>\<open>NaN\<close>.\<close>

definition index_ge :: "int option \<Rightarrow> nat \<Rightarrow> bool" where
  "index_ge idx n = (case idx of None \<Rightarrow> False | Some i \<Rightarrow> int n \<le> i)"

text \<open>\<^verbatim>\<open>xs.filter((_, i) => i !== idx)\<close>.\<close>

definition filter_index :: "'a list \<Rightarrow> int option \<Rightarrow> 'a list" where
  "filter_index xs idx =
     map snd (filter (\<lambda>(i, x). Some (int i) \<noteq> idx) (enumerate 0 xs))"

text \<open>The argument of \<^verbatim>\<open>/add\<close>: \<^verbatim>\<open>text.split(/\s+/).slice(1).join(" ").trim()\<close>.\<close>

definition add_args :: "jsstring \<Rightarrow> jsstring" where
  "add_args text = trim (join [0x20] (drop 1 (split_ws text)))"

section \<open>The store\<close>

text \<open>
  Modelled from the spec: the tables, which are created outside \<^verbatim>\<open>index.ts\<close>.  They
  follow the persisted state layout of section 6 of the spec: a Users relation keyed by
  the transport's user id with a custom-categories list, an append-only Expense relation,
  and a PendingExpense relation with a unique user reference, so that at most one pending
  row exists per user.  The timestamps are milliseconds; the store stamps a row when it
  inserts it, and gives a new user the next free key.
\<close>

record user_row =
  row_id :: nat
  custom_categories :: "jsstring list option"

record pending_row =
  pending_amount :: rat
  pending_description :: jsstring
  pending_created_at :: int

record expense_row =
  user_id :: nat
  expense_amount :: rat
  expense_description :: jsstring
  category :: "jsstring option"
  expense_created_at :: int

record db =
  users :: "jsstring \<rightharpoonup> user_row"
  pending_expenses :: "jsstring \<rightharpoonup> pending_row"
  expense :: "expense_row list"
  next_id :: nat

text \<open>
  The store answers every request with data or with an error; the client does not throw.
  A handler is run against the answers the store gives to the requests it issues:
  \<open>True\<close> where the request is carried out, \<open>False\<close> where it fails and changes
  nothing.  Every answer arrives, with one exception that is part of the model: the
  source calls the sweep of old pending rows \<^verbatim>\<open>fire and forget\<close>, so whether the answer
  to the sweep arrives at all is an answer of its own, \<open>sweep_answered\<close>.
\<close>

record responses =
  user_ok :: bool
  categories_ok :: bool
  select_ok :: bool
  insert_ok :: bool
  delete_ok :: bool
  sweep_ok :: bool
  sweep_answered :: bool
  update_ok :: bool

definition all_ok :: responses where
  "all_ok = \<lparr>user_ok = True, categories_ok = True, select_ok = True, insert_ok = True,
             delete_ok = True, sweep_ok = True, sweep_answered = True, update_ok = True\<rparr>"

text \<open>The clock of one event: the current time and the local midnights before it.\<close>

record clock =
  now :: int
  start_of_day :: int
  start_of_month :: int

definition DEFAULT_CATEGORIES :: "jsstring list" where
  "DEFAULT_CATEGORIES =
     [[0xD83C, 0xDF54, 0x20, 0x46, 0x6F, 0x6F, 0x64],
      [0xD83D, 0xDE97, 0x20, 0x54, 0x72, 0x61, 0x6E, 0x73, 0x70, 0x6F, 0x72, 0x74],
      [0xD83C, 0xDFE0, 0x20, 0x48, 0x6F, 0x75, 0x73, 0x69, 0x6E, 0x67],
      [0xD83C, 0xDFAC, 0x20, 0x45, 0x6E, 0x74, 0x65, 0x72, 0x74, 0x61, 0x69, 0x6E, 0x6D, 0x65,
       0x6E, 0x74],
      [0xD83D, 0xDED2, 0x20, 0x53, 0x68, 0x6F, 0x70, 0x70, 0x69, 0x6E, 0x67],
      [0xD83D, 0xDC8A, 0x20, 0x48, 0x65, 0x61, 0x6C, 0x74, 0x68, 0x63, 0x61, 0x72, 0x65],
      [0xD83D, 0xDCDA, 0x20, 0x45, 0x64, 0x75, 0x63, 0x61, 0x74, 0x69, 0x6F, 0x6E],
      [0xD83D, 0xDCBC, 0x20, 0x57, 0x6F, 0x72, 0x6B],
      [0x2708, 0xFE0F, 0x20, 0x54, 0x72, 0x61, 0x76, 0x65, 0x6C],
      [0xD83D, 0xDCF1, 0x20, 0x42, 0x69, 0x6C, 0x6C, 0x73],
      [0xD83C, 0xDF81, 0x20, 0x47, 0x69, 0x66, 0x74, 0x73],
      [0xD83D, 0xDCB0, 0x20, 0x4F, 0x74, 0x68, 0x65, 0x72]]"

text \<open>
  \<^verbatim>\<open>getOrCreateUser\<close>: an upsert on the user id that returns the row.  A new row gets
  the next key and no custom categories.  On an error the data is \<^verbatim>\<open>null\<close>.
\<close>

definition getOrCreateUser :: "bool \<Rightarrow> jsstring \<Rightarrow> db \<Rightarrow> user_row option \<times> db" where
  "getOrCreateUser ok telegramUserId d =
     (if \<not> ok then (None, d)
      else (case users d telegramUserId of
              Some u \<Rightarrow> (Some u, d)
            | None \<Rightarrow>
                (let u = \<lparr>row_id = next_id d, custom_categories = None\<rparr>
                 in (Some u, d\<lparr>users := (users d)(telegramUserId \<mapsto> u),
                                next_id := Suc (next_id d)\<rparr>))))"

text \<open>\<^verbatim>\<open>user?.custom_categories || []\<close>.\<close>

definition custom_or_empty :: "user_row option \<Rightarrow> jsstring list" where
  "custom_or_empty user =
     (case user of
        None \<Rightarrow> []
      | Some u \<Rightarrow> (case custom_categories u of None \<Rightarrow> [] | Some cs \<Rightarrow> cs))"

definition getUserCategories :: "bool \<Rightarrow> jsstring \<Rightarrow> db \<Rightarrow> jsstring list \<times> db" where
  "getUserCategories ok telegramUserId d =
     (let (user, d1) = getOrCreateUser ok telegramUserId d
      in (DEFAULT_CATEGORIES @ custom_or_empty user, d1))"

text \<open>
  \<^verbatim>\<open>from("pending_expenses").select("*").eq(...).single()\<close>: the row, or \<^verbatim>\<open>null\<close> when
  there is none or the request fails.
\<close>

definition select_pending :: "bool \<Rightarrow> jsstring \<Rightarrow> db \<Rightarrow> pending_row option" where
  "select_pending ok telegramUserId d = (if ok then pending_expenses d telegramUserId else None)"

definition insert_expense :: "bool \<Rightarrow> expense_row \<Rightarrow> db \<Rightarrow> db" where
  "insert_expense ok row d = (if ok then d\<lparr>expense := expense d @ [row]\<rparr> else d)"

definition delete_pending :: "bool \<Rightarrow> jsstring \<Rightarrow> db \<Rightarrow> db" where
  "delete_pending ok telegramUserId d =
     (if ok then d\<lparr>pending_expenses := (pending_expenses d)(telegramUserId := None)\<rparr> else d)"

text \<open>\<^verbatim>\<open>from("pending_expenses").delete().lt("created_at", cutoff)\<close>.\<close>

definition delete_older :: "bool \<Rightarrow> int \<Rightarrow> db \<Rightarrow> db" where
  "delete_older ok cutoff d =
     (if ok
      then d\<lparr>pending_expenses :=
             (\<lambda>u. case pending_expenses d u of
                     None \<Rightarrow> None
                   | Some p \<Rightarrow> if pending_created_at p < cutoff then None else Some p)\<rparr>
      else d)"

text \<open>
  \<^verbatim>\<open>from("users").update({custom_categories}).eq("telegram_user_id", ...)\<close>; the
  result says whether the store reported an error.
\<close>

definition update_custom :: "bool \<Rightarrow> jsstring \<Rightarrow> jsstring list \<Rightarrow> db \<Rightarrow> bool \<times> db" where
  "update_custom ok telegramUserId cs d =
     (if \<not> ok then (True, d)
      else (False,
            (case users d telegramUserId of
               None \<Rightarrow> d
             | Some u \<Rightarrow>
                 d\<lparr>users := (users d)(telegramUserId \<mapsto> u\<lparr>custom_categories := Some cs\<rparr>)\<rparr>)))"

text \<open>
  \<^verbatim>\<open>from("expense").select(...).eq("user_id", id)\<close> with a further filter: the rows, or
  \<^verbatim>\<open>null\<close> on an error.
\<close>

definition select_expenses ::
  "bool \<Rightarrow> nat \<Rightarrow> (expense_row \<Rightarrow> bool) \<Rightarrow> db \<Rightarrow> expense_row list option" where
  "select_expenses ok uid P d =
     (if ok then Some (filter (\<lambda>e. user_id e = uid \<and> P e) (expense d)) else None)"

section \<open>The handlers\<close>

text \<open>
  What a handler sends.  The texts are named, not spelled out: a report carries the rows it
  was computed from (their order, the limit of twenty and the layout of the text are not
  modelled), \<open>SessionExpired\<close> is \<^verbatim>\<open>"Session expired. Please try again."\<close>,
  \<open>SaveFailed\<close> is \<^verbatim>\<open>"Failed to save expense. Please try again."\<close>, and so on.  A
  label that is \<open>None\<close> is \<^verbatim>\<open>undefined\<close>.
\<close>

datatype message =
    Welcome
  | NoExpenses
  | Report "expense_row list"
  | AddUsage
  | AlreadyExists
  | AddFailed
  | Added jsstring
  | NothingToRemove
  | SelectToRemove "jsstring list"
  | SessionExpired
  | SaveFailed
  | ExpenseSaved rat jsstring "jsstring option"
  | InvalidCategory
  | RemoveFailed
  | Removed "jsstring option"
  | Cancelled

datatype action =
    Reply message
  | AnswerCallbackQuery "message option"
  | EditMessageText message
  | ConsoleError

text \<open>
  A handler returns, or throws (reading \<^verbatim>\<open>user.id\<close> of \<^verbatim>\<open>null\<close>, which \<^verbatim>\<open>bot.catch\<close>
  logs), or stays suspended on an \<^verbatim>\<open>await\<close> whose answer does not arrive, after the
  actions listed.  Failures of the transport are not modelled.
\<close>

datatype outcome = Returned "action list" | Threw "action list" | Waiting "action list"

subsection \<open>Commands\<close>

text \<open>\<^verbatim>\<open>/start\<close>.\<close>

definition start_command :: "db \<Rightarrow> outcome \<times> db" where
  "start_command d = (Returned [Reply Welcome], d)"

text \<open>
  \<^verbatim>\<open>/expenses\<close>, \<^verbatim>\<open>/day\<close>, \<^verbatim>\<open>/month\<close> and \<^verbatim>\<open>/categories\<close> share one shape: find the
  user, select the user's expenses (all of them, or those since a midnight), and reply
  with a report or with the notice that there is none.
\<close>

definition report_command ::
  "responses \<Rightarrow> (expense_row \<Rightarrow> bool) \<Rightarrow> jsstring option \<Rightarrow> db \<Rightarrow> outcome \<times> db" where
  "report_command r P sender d =
     (case sender of
        None \<Rightarrow> (Returned [], d)
      | Some telegramUserId \<Rightarrow>
          (let (user, d1) = getOrCreateUser (user_ok r) telegramUserId d
           in case user of
                None \<Rightarrow> (Threw [], d1)
              | Some u \<Rightarrow>
                  (case select_expenses (select_ok r) (row_id u) P d1 of
                     None \<Rightarrow> (Returned [Reply NoExpenses], d1)
                   | Some es \<Rightarrow>
                       if es = [] then (Returned [Reply NoExpenses], d1)
                       else (Returned [Reply (Report es)], d1))))"

definition expenses_command :: "responses \<Rightarrow> jsstring option \<Rightarrow> db \<Rightarrow> outcome \<times> db" where
  "expenses_command r = report_command r (\<lambda>e. True)"

definition day_command :: "responses \<Rightarrow> clock \<Rightarrow> jsstring option \<Rightarrow> db \<Rightarrow> outcome \<times> db" where
  "day_command r c = report_command r (\<lambda>e. start_of_day c \<le> expense_created_at e)"

definition month_command :: "responses \<Rightarrow> clock \<Rightarrow> jsstring option \<Rightarrow> db \<Rightarrow> outcome \<times> db" where
  "month_command r c = report_command r (\<lambda>e. start_of_month c \<le> expense_created_at e)"

definition categories_command :: "responses \<Rightarrow> jsstring option \<Rightarrow> db \<Rightarrow> outcome \<times> db" where
  "categories_command r = report_command r (\<lambda>e. True)"

text \<open>\<^verbatim>\<open>/add\<close>; \<open>text\<close> is the whole message.\<close>

definition add_command :: "responses \<Rightarrow> jsstring option \<Rightarrow> jsstring \<Rightarrow> db \<Rightarrow> outcome \<times> db" where
  "add_command r sender text d =
     (case sender of
        None \<Rightarrow> (Returned [], d)
      | Some telegramUserId \<Rightarrow>
          (let categoryText = add_args text
           in if categoryText = [] then (Returned [Reply AddUsage], d)
              else
                (let (user, d1) = getOrCreateUser (user_ok r) telegramUserId d;
                     currentCustom = custom_or_empty user;
                     (allCategories, d2) = getUserCategories (categories_ok r) telegramUserId d1
                 in if categoryText \<in> set allCategories
                    then (Returned [Reply AlreadyExists], d2)
                    else
                      (let updatedCustom = currentCustom @ [categoryText];
                           (error, d3) = update_custom (update_ok r) telegramUserId updatedCustom d2
                       in if error then (Returned [Reply AddFailed, ConsoleError], d3)
                          else (Returned [Reply (Added categoryText)], d3)))))"

text \<open>\<^verbatim>\<open>/remove\<close>: one button per custom category, and a cancel button.\<close>

definition remove_command :: "responses \<Rightarrow> jsstring option \<Rightarrow> db \<Rightarrow> outcome \<times> db" where
  "remove_command r sender d =
     (case sender of
        None \<Rightarrow> (Returned [], d)
      | Some telegramUserId \<Rightarrow>
          (let (user, d1) = getOrCreateUser (user_ok r) telegramUserId d;
               customCategories = custom_or_empty user
           in if customCategories = [] then (Returned [Reply NothingToRemove], d1)
              else (Returned [Reply (SelectToRemove customCategories)], d1)))"

datatype command = Start | Expenses | Day | Month | Categories | Add | Remove

fun handle_command ::
  "command \<Rightarrow> responses \<Rightarrow> clock \<Rightarrow> jsstring option \<Rightarrow> jsstring \<Rightarrow> db \<Rightarrow> outcome \<times> db" where
  "handle_command Start r c sender text d = start_command d"
| "handle_command Expenses r c sender text d = expenses_command r sender d"
| "handle_command Day r c sender text d = day_command r c sender d"
| "handle_command Month r c sender text d = month_command r c sender d"
| "handle_command Categories r c sender text d = categories_command r sender d"
| "handle_command Add r c sender text d = add_command r sender text d"
| "handle_command Remove r c sender text d = remove_command r sender d"

subsection \<open>Button presses\<close>

text \<open>\<^verbatim>\<open>ctx.from?.id.toString() || ""\<close>.\<close>

definition sender_id :: "jsstring option \<Rightarrow> jsstring" where
  "sender_id sender = (case sender of None \<Rightarrow> [] | Some t \<Rightarrow> t)"

text \<open>
  The branch for \<^verbatim>\<open>cat_\<close> suspends three times on the store.  First the user and the
  pending row are fetched in parallel (two tables, so the order does not matter).
\<close>

definition cat_read ::
  "responses \<Rightarrow> jsstring \<Rightarrow> db \<Rightarrow> user_row option \<times> pending_row option \<times> db" where
  "cat_read r telegramUserId d =
     (let (user, d1) = getOrCreateUser (user_ok r) telegramUserId d
      in (user, select_pending (select_ok r) telegramUserId d1, d1))"

text \<open>Then the label is looked up in a freshly fetched category list.\<close>

definition cat_resolve ::
  "responses \<Rightarrow> jsstring \<Rightarrow> int option \<Rightarrow> db \<Rightarrow> jsstring option \<times> db" where
  "cat_resolve r telegramUserId categoryIndex d =
     (let (categories, d1) = getUserCategories (categories_ok r) telegramUserId d
      in (js_index categories categoryIndex, d1))"

text \<open>
  Then the insert, the delete of the user's pending row and the delete of the old pending
  rows are issued together, in one \<^verbatim>\<open>await Promise.all\<close>: the handler goes on when all
  three have been answered, and then looks at the insert's result only.  When \<^verbatim>\<open>user\<close>
  is \<^verbatim>\<open>null\<close>, building the insert throws before any of the three is issued.
\<close>

definition cat_commit ::
  "responses \<Rightarrow> clock \<Rightarrow> jsstring \<Rightarrow> user_row option \<Rightarrow> pending_row \<Rightarrow> jsstring option \<Rightarrow> db
     \<Rightarrow> outcome \<times> db" where
  "cat_commit r c telegramUserId user pending label d =
     (case user of
        None \<Rightarrow> (Threw [], d)
      | Some u \<Rightarrow>
          (let d1 = insert_expense (insert_ok r)
                      \<lparr>user_id = row_id u, expense_amount = pending_amount pending,
                       expense_description = pending_description pending,
                       category = label, expense_created_at = now c\<rparr> d;
               d2 = delete_pending (delete_ok r) telegramUserId d1;
               d3 = delete_older (sweep_ok r) (now c - 60 * 60 * 1000) d2
           in if \<not> sweep_answered r then (Waiting [], d3)
              else if \<not> insert_ok r
              then (Returned [EditMessageText SaveFailed, ConsoleError, AnswerCallbackQuery None], d3)
              else (Returned [EditMessageText (ExpenseSaved (pending_amount pending)
                                 (pending_description pending) label),
                              AnswerCallbackQuery None], d3)))"

definition cat_callback ::
  "responses \<Rightarrow> clock \<Rightarrow> jsstring option \<Rightarrow> jsstring \<Rightarrow> db \<Rightarrow> outcome \<times> db" where
  "cat_callback r c sender data d =
     (let categoryIndex = payload_index data;
          telegramUserId = sender_id sender;
          (user, pending, d1) = cat_read r telegramUserId d
      in case pending of
           None \<Rightarrow> (Returned [AnswerCallbackQuery (Some SessionExpired)], d1)
         | Some p \<Rightarrow>
             (let (label, d2) = cat_resolve r telegramUserId categoryIndex d1
              in cat_commit r c telegramUserId user p label d2))"

text \<open>The branch for \<^verbatim>\<open>remove_\<close>.\<close>

definition remove_callback ::
  "responses \<Rightarrow> jsstring option \<Rightarrow> jsstring \<Rightarrow> db \<Rightarrow> outcome \<times> db" where
  "remove_callback r sender data d =
     (let categoryIndex = payload_index data;
          telegramUserId = sender_id sender;
          (user, d1) = getOrCreateUser (user_ok r) telegramUserId d;
          customCategories = custom_or_empty user
      in if index_ge categoryIndex (length customCategories)
         then (Returned [AnswerCallbackQuery (Some InvalidCategory)], d1)
         else
           (let categoryToRemove = js_index customCategories categoryIndex;
                updatedCustom = filter_index customCategories categoryIndex;
                (error, d2) = update_custom (update_ok r) telegramUserId updatedCustom d1
            in if error
               then (Returned [EditMessageText RemoveFailed, ConsoleError,
                               AnswerCallbackQuery None], d2)
               else (Returned [EditMessageText (Removed categoryToRemove),
                               AnswerCallbackQuery None], d2)))"

text \<open>The payloads \<^verbatim>\<open>"cat_"\<close>, \<^verbatim>\<open>"remove_"\<close> and \<^verbatim>\<open>"cancel_remove"\<close>.\<close>

definition cat_prefix :: jsstring where
  "cat_prefix = [0x63, 0x61, 0x74, 0x5F]"

definition remove_prefix :: jsstring where
  "remove_prefix = [0x72, 0x65, 0x6D, 0x6F, 0x76, 0x65, 0x5F]"

definition cancel_remove :: jsstring where
  "cancel_remove = [0x63, 0x61, 0x6E, 0x63, 0x65, 0x6C, 0x5F, 0x72, 0x65, 0x6D, 0x6F, 0x76, 0x65]"

text \<open>\<^verbatim>\<open>bot.on("callback_query:data", ...)\<close>.\<close>

definition callback_query ::
  "responses \<Rightarrow> clock \<Rightarrow> jsstring option \<Rightarrow> jsstring \<Rightarrow> db \<Rightarrow> outcome \<times> db" where
  "callback_query r c sender data d =
     (if starts_with data cat_prefix then cat_callback r c sender data d
      else if starts_with data remove_prefix then remove_callback r sender data d
      else if data = cancel_remove
      then (Returned [EditMessageText Cancelled, AnswerCallbackQuery None], d)
      else (Returned [], d))"

subsection \<open>Overlapping button presses\<close>

text \<open>
  Every event is handled on its own and gives way to the others where it awaits the
  store.  A press of a category button is therefore a thread of three steps, the three
  suspensions of \<open>cat_callback\<close>, and two presses run in some interleaving of their
  steps.  The requests that one \<^verbatim>\<open>Promise.all\<close> issues together count as one step;
  interleaving them one by one adds runs and takes none away.
\<close>

record press =
  press_responses :: responses
  press_clock :: clock
  press_sender :: "jsstring option"
  press_data :: jsstring

datatype thread =
    Begun
  | Read "user_row option" pending_row
  | Resolved "user_row option" pending_row "jsstring option"
  | Finished outcome

fun cat_step :: "press \<Rightarrow> thread \<Rightarrow> db \<Rightarrow> thread \<times> db" where
  "cat_step e Begun d =
     (let (user, pending, d1) = cat_read (press_responses e) (sender_id (press_sender e)) d
      in case pending of
           None \<Rightarrow> (Finished (Returned [AnswerCallbackQuery (Some SessionExpired)]), d1)
         | Some p \<Rightarrow> (Read user p, d1))"
| "cat_step e (Read user p) d =
     (let (label, d1) = cat_resolve (press_responses e) (sender_id (press_sender e))
                          (payload_index (press_data e)) d
      in (Resolved user p label, d1))"
| "cat_step e (Resolved user p label) d =
     (let (out, d1) = cat_commit (press_responses e) (press_clock e)
                        (sender_id (press_sender e)) user p label d
      in (Finished out, d1))"
| "cat_step e (Finished out) d = (Finished out, d)"

text \<open>
  A schedule says whose turn it is: \<open>False\<close> lets the first press take its next step,
  \<open>True\<close> the second.
\<close>

fun interleave :: "press \<Rightarrow> press \<Rightarrow> bool list \<Rightarrow> thread \<times> thread \<times> db \<Rightarrow> thread \<times> thread \<times> db" where
  "interleave e1 e2 [] s = s"
| "interleave e1 e2 (b # bs) (t1, t2, d) =
     (if b then (let (t2', d') = cat_step e2 t2 d in interleave e1 e2 bs (t1, t2', d'))
      else (let (t1', d') = cat_step e1 t1 d in interleave e1 e2 bs (t1', t2, d')))"

text \<open>What a user's custom categories are, as every handler reads them.\<close>

definition custom_of :: "db \<Rightarrow> jsstring \<Rightarrow> jsstring list" where
  "custom_of d telegramUserId = custom_or_empty (users d telegramUserId)"

section \<open>An example store\<close>

text \<open>
  Two users: \<^verbatim>\<open>"42"\<close>, without custom categories and with a pending lunch entered a
  second ago, and \<^verbatim>\<open>"7"\<close>, with the custom categories \<^verbatim>\<open>A\<close>, \<^verbatim>\<open>B\<close>, \<^verbatim>\<open>C\<close> and a
  pending coffee entered more than an hour ago.
\<close>

definition alice :: jsstring where
  "alice = [0x34, 0x32]"

definition bob :: jsstring where
  "bob = [0x37]"

definition lunch :: pending_row where
  "lunch = \<lparr>pending_amount = 50, pending_description = [0x6C, 0x75, 0x6E, 0x63, 0x68],
            pending_created_at = 3999000\<rparr>"

definition coffee :: pending_row where
  "coffee = \<lparr>pending_amount = 25 / 2, pending_description = [0x63, 0x6F, 0x66, 0x66, 0x65, 0x65],
             pending_created_at = 0\<rparr>"

definition example_db :: db where
  "example_db =
     \<lparr>users = [alice \<mapsto> \<lparr>row_id = 0, custom_categories = None\<rparr>,
               bob \<mapsto> \<lparr>row_id = 1, custom_categories = Some [[0x41], [0x42], [0x43]]\<rparr>],
      pending_expenses = [alice \<mapsto> lunch, bob \<mapsto> coffee],
      expense = [],
      next_id = 2\<rparr>"

definition example_clock :: clock where
  "example_clock = \<lparr>now = 4000000, start_of_day = 0, start_of_month = 0\<rparr>"

text \<open>The payload \<^verbatim>\<open>"cat_0"\<close>, the button of the first category.\<close>

definition cat_0 :: jsstring where
  "cat_0 = cat_prefix @ [0x30]"

text \<open>The payload \<^verbatim>\<open>"cat_12"\<close>: no button carries it while there are twelve categories.\<close>

definition cat_12 :: jsstring where
  "cat_12 = cat_prefix @ [0x31, 0x32]"

text \<open>The message \<^verbatim>\<open>"/add D"\<close>.\<close>

definition add_D :: jsstring where
  "add_D = [0x2F, 0x61, 0x64, 0x64, 0x20, 0x44]"

text \<open>
  The message \<^verbatim>\<open>"/add "\<close> followed by the label of the first default category written
  with two spaces after the emoji.
\<close>

definition food_two_spaces :: jsstring where
  "food_two_spaces = [0xD83C, 0xDF54, 0x20, 0x20, 0x46, 0x6F, 0x6F, 0x64]"

definition add_food :: jsstring where
  "add_food = [0x2F, 0x61, 0x64, 0x64, 0x20] @ food_two_spaces"

text \<open>The payloads \<^verbatim>\<open>"remove_0"\<close>, \<^verbatim>\<open>"remove_3"\<close> and \<^verbatim>\<open>"remove_-1"\<close>.\<close>

definition remove_0 :: jsstring where
  "remove_0 = remove_prefix @ [0x30]"

definition remove_3 :: jsstring where
  "remove_3 = remove_prefix @ [0x33]"

definition remove_minus_1 :: jsstring where
  "remove_minus_1 = remove_prefix @ [0x2D, 0x31]"

text \<open>User \<^verbatim>\<open>"42"\<close> presses the button of the first category.\<close>

definition alice_press :: press where
  "alice_press = \<lparr>press_responses = all_ok, press_clock = example_clock,
                   press_sender = Some alice, press_data = cat_0\<rparr>"

lemmas example_defs =
  alice_def bob_def lunch_def coffee_def example_db_def example_clock_def cat_0_def all_ok_def

lemmas string_defs =
  is_digit_def is_space_def is_line_terminator_def dot_def trim_def starts_with_def nth_opt_def
  digit_of_def radix_digit_def radix_value_def parseInt_def payload_index_def js_index_def
  index_ge_def filter_index_def add_args_def cat_prefix_def remove_prefix_def cancel_remove_def

lemmas store_defs =
  getOrCreateUser_def custom_or_empty_def getUserCategories_def select_pending_def
  insert_expense_def delete_pending_def delete_older_def update_custom_def select_expenses_def
  custom_of_def sender_id_def

lemmas cat_defs =
  cat_read_def cat_resolve_def cat_commit_def cat_callback_def callback_query_def

section \<open>Properties of the input parser\<close>

subsection \<open>What the matchers offer\<close>

lemma star_class_set:
  "set (star_class P s) = {(m, r). s = m @ r \<and> list_all P m}"
proof (induction s)
  case Nil
  show ?case by auto
next
  case (Cons c cs)
  show ?case
  proof (rule set_eqI, clarify)
    fix m r
    show "((m, r) \<in> set (star_class P (c # cs))) = ((m, r) \<in> {(m, r). c # cs = m @ r \<and> list_all P m})"
      using Cons by (cases m) (auto simp: image_iff)
  qed
qed

lemma plus_class_set:
  "set (plus_class P s) = {(m, r). s = m @ r \<and> m \<noteq> [] \<and> list_all P m}"
proof (cases s)
  case Nil
  then show ?thesis by auto
next
  case (Cons c cs)
  show ?thesis
  proof (rule set_eqI, clarify)
    fix m r
    show "((m, r) \<in> set (plus_class P s)) = ((m, r) \<in> {(m, r). s = m @ r \<and> m \<noteq> [] \<and> list_all P m})"
      unfolding Cons by (cases m) (auto simp: star_class_set image_iff)
  qed
qed

lemma one_class_set:
  "set (one_class P s) = {(m, r). \<exists>c. m = [c] \<and> s = c # r \<and> P c}"
  by (cases s) auto

lemma seq_set:
  "set (seq m1 m2 s) = {(m, r'). \<exists>a b r. m = a @ b \<and> (a, r) \<in> set (m1 s) \<and> (b, r') \<in> set (m2 r)}"
  by (fastforce simp: seq_def)

lemma opt_set: "set (opt m s) = insert ([], s) (set (m s))"
  by (simp add: opt_def)

lemma dot_not_digit: "\<not> is_digit dot"
  by (simp add: is_digit_def dot_def)

lemma space_not_digit: "is_space c \<Longrightarrow> \<not> is_digit c"
  by (auto simp: is_space_def is_digit_def is_line_terminator_def word_le_nat_alt)

lemma space_not_dot: "is_space c \<Longrightarrow> c \<noteq> dot"
  by (auto simp: is_space_def dot_def is_line_terminator_def)

lemma fraction_set:
  "set (seq (one_class is_digit) (opt (one_class is_digit)) s) =
     {(m, r). s = m @ r \<and> m \<noteq> [] \<and> length m \<le> 2 \<and> list_all is_digit m}"
proof (rule set_eqI, clarify)
  fix m r
  show "((m, r) \<in> set (seq (one_class is_digit) (opt (one_class is_digit)) s)) =
        ((m, r) \<in> {(m, r). s = m @ r \<and> m \<noteq> [] \<and> length m \<le> 2 \<and> list_all is_digit m})"
  proof (cases m)
    case Nil
    then show ?thesis by (auto simp: seq_set opt_set one_class_set)
  next
    case (Cons c m')
    show ?thesis
    proof (cases m')
      case Nil
      with Cons show ?thesis by (auto simp: seq_set opt_set one_class_set)
    next
      case (Cons c' m'')
      with \<open>m = c # m'\<close> show ?thesis
        by (cases m'') (auto simp: seq_set opt_set one_class_set)
    qed
  qed
qed

lemma dot_fraction_set:
  "set (seq (one_class (\<lambda>c. c = dot)) (seq (one_class is_digit) (opt (one_class is_digit))) s) =
     {(m, r). \<exists>fs. m = dot # fs \<and> s = dot # fs @ r \<and> fs \<noteq> [] \<and> length fs \<le> 2 \<and> list_all is_digit fs}"
  by (subst seq_set) (auto simp: fraction_set one_class_set)

lemma number_sound:
  assumes "(m, r) \<in> set (number s)"
  shows "s = m @ r \<and> (\<exists>ds fs. m = decimal_text ds fs \<and> decimal_shape ds fs)"
proof -
  from assms obtain a b r1 where m: "m = a @ b"
    and a: "(a, r1) \<in> set (plus_class is_digit s)"
    and b: "(b, r) \<in> set (opt (seq (one_class (\<lambda>c. c = dot)) (seq (one_class is_digit) (opt (one_class is_digit)))) r1)"
    unfolding number_def by (subst (asm) seq_set) blast
  from a have a': "s = a @ r1" "a \<noteq> []" "list_all is_digit a"
    by (auto simp: plus_class_set)
  from b consider "b = []" "r = r1"
    | fs where "b = dot # fs" "r1 = dot # fs @ r" "fs \<noteq> []" "length fs \<le> 2" "list_all is_digit fs"
    by (auto simp: opt_set dot_fraction_set)
  then show ?thesis
  proof cases
    case 1
    with m a' have "s = m @ r" "m = decimal_text a []" "decimal_shape a []"
      by (simp_all add: decimal_text_def decimal_shape_def)
    then show ?thesis by blast
  next
    case (2 fs)
    with m a' have "s = m @ r" "m = decimal_text a fs" "decimal_shape a fs"
      by (simp_all add: decimal_text_def decimal_shape_def)
    then show ?thesis by blast
  qed
qed

lemma seqI:
  "(a, r) \<in> set (m1 s) \<Longrightarrow> (b, r') \<in> set (m2 r) \<Longrightarrow> (a @ b, r') \<in> set (seq m1 m2 s)"
  by (subst seq_set) blast

lemma number_complete:
  assumes "decimal_shape ds fs"
  shows "(decimal_text ds fs, r) \<in> set (number (decimal_text ds fs @ r))"
proof -
  define t where "t = (if fs = [] then [] else dot # fs)"
  let ?frac = "opt (seq (one_class (\<lambda>c. c = dot)) (seq (one_class is_digit) (opt (one_class is_digit))))"
  from assms have ds: "(ds, t @ r) \<in> set (plus_class is_digit (ds @ t @ r))"
    by (simp add: plus_class_set decimal_shape_def)
  from assms have fs: "(t, r) \<in> set (?frac (t @ r))"
    by (simp add: opt_set dot_fraction_set decimal_shape_def t_def)
  have "(ds @ t, r) \<in> set (seq (plus_class is_digit) ?frac (ds @ t @ r))"
    using ds fs by (rule seqI [where ?m1.0 = "plus_class is_digit" and ?m2.0 = ?frac])
  then show ?thesis
    by (simp add: number_def decimal_text_def t_def)
qed

lemma in_concat_map: "y \<in> set (concat (map f xs)) \<longleftrightarrow> (\<exists>x\<in>set xs. y \<in> set (f x))"
  by auto

lemma expense_matches_unfold:
  "(g1, g2) \<in> set (expense_matches text) \<longleftrightarrow>
     (\<exists>r1 ws r2. (g1, r1) \<in> set (number text) \<and> (ws, r2) \<in> set (plus_class is_space r1)
        \<and> (g2, []) \<in> set (plus_class (\<lambda>c. \<not> is_line_terminator c) r2))"
  unfolding expense_matches_def in_concat_map
  by (simp add: Bex_def split_beta)

lemma expense_matches_sound:
  assumes "(g1, g2) \<in> set (expense_matches text)"
  obtains ds fs ws where "text = decimal_text ds fs @ ws @ g2" "g1 = decimal_text ds fs"
    "decimal_shape ds fs" "ws \<noteq> []" "list_all is_space ws"
    "g2 \<noteq> []" "list_all (\<lambda>c. \<not> is_line_terminator c) g2"
proof -
  from assms obtain r1 ws r2 where n: "(g1, r1) \<in> set (number text)"
    and w: "(ws, r2) \<in> set (plus_class is_space r1)"
    and g: "(g2, []) \<in> set (plus_class (\<lambda>c. \<not> is_line_terminator c) r2)"
    unfolding expense_matches_unfold by blast
  from number_sound [OF n] obtain ds fs where
    "text = g1 @ r1" "g1 = decimal_text ds fs" "decimal_shape ds fs" by blast
  moreover from w have "r1 = ws @ r2" "ws \<noteq> []" "list_all is_space ws"
    by (simp_all add: plus_class_set)
  moreover from g have "r2 = g2" "g2 \<noteq> []" "list_all (\<lambda>c. \<not> is_line_terminator c) g2"
    by (simp_all add: plus_class_set)
  ultimately show ?thesis using that by simp
qed

lemma expense_matches_complete:
  assumes sh: "decimal_shape ds fs" and ws: "ws \<noteq> []" "list_all is_space ws"
    and g2: "g2 \<noteq> []" "list_all (\<lambda>c. \<not> is_line_terminator c) g2"
  shows "(decimal_text ds fs, g2) \<in> set (expense_matches (decimal_text ds fs @ ws @ g2))"
proof -
  from number_complete [OF sh, of "ws @ g2"]
  have n: "(decimal_text ds fs, ws @ g2) \<in> set (number (decimal_text ds fs @ ws @ g2))" .
  from ws have w: "(ws, g2) \<in> set (plus_class is_space (ws @ g2))"
    by (simp add: plus_class_set)
  from g2 have g: "(g2, []) \<in> set (plus_class (\<lambda>c. \<not> is_line_terminator c) g2)"
    by (simp add: plus_class_set)
  from n w g show ?thesis
    unfolding expense_matches_unfold by blast
qed

lemma expense_match_Some:
  "expense_match text = Some m \<Longrightarrow> m \<in> set (expense_matches text)"
  by (auto simp: expense_match_def split: list.splits)

lemma expense_match_None:
  "expense_match text = None \<longleftrightarrow> expense_matches text = []"
  by (auto simp: expense_match_def split: list.splits)

lemma takeWhile_stop:
  "list_all P xs \<Longrightarrow> r = [] \<or> \<not> P (hd r) \<Longrightarrow> takeWhile P (xs @ r) = xs"
proof (induction xs)
  case Nil
  then show ?case by (cases r) auto
next
  case (Cons x xs)
  then show ?case by simp
qed

lemma dropWhile_stop:
  "list_all P xs \<Longrightarrow> r = [] \<or> \<not> P (hd r) \<Longrightarrow> dropWhile P (xs @ r) = r"
proof (induction xs)
  case Nil
  then show ?case by (cases r) auto
next
  case (Cons x xs)
  then show ?case by simp
qed

lemma binary_exponent_le:
  assumes "0 < x"
  shows "2 powi binary_exponent x \<le> x"
proof -
  obtain p q where pq: "quotient_of x = (p, q)" by (cases "quotient_of x")
  then have q: "0 < q" and x: "x = of_int p / of_int q"
    by (simp_all add: quotient_of_denom_pos quotient_of_div)
  with assms have p: "0 < p"
    by (simp add: zero_less_divide_iff)
  let ?k = "bitlen p - bitlen q"
  show ?thesis
  proof (cases "of_int q * 2 powi ?k \<le> (of_int p :: rat)")
    case True
    then have "binary_exponent x = ?k"
      by (simp add: binary_exponent_def pq)
    moreover from True q have "2 powi ?k \<le> x"
      by (simp add: x pos_le_divide_eq mult.commute)
    ultimately show ?thesis by (simp only:)
  next
    case False
    then have e: "binary_exponent x = ?k - 1"
      by (simp add: binary_exponent_def pq)
    from bitlen_bounds [OF p] have "2 ^ nat (bitlen p - 1) \<le> p" by simp
    then have "(2 :: rat) ^ nat (bitlen p - 1) \<le> of_int p"
      by (metis of_int_le_iff of_int_numeral of_int_power)
    moreover from p have "1 \<le> bitlen p"
      by (simp add: bitlen_alt_def)
    ultimately have lp: "(2 :: rat) powi (bitlen p - 1) \<le> of_int p"
      by (simp add: power_int_def)
    from bitlen_bounds [OF q] have "q < 2 ^ nat (bitlen q)" by simp
    then have "of_int q < (2 :: rat) ^ nat (bitlen q)"
      by (metis of_int_less_iff of_int_numeral of_int_power)
    then have lq: "of_int q \<le> (2 :: rat) powi bitlen q"
      using bitlen_nonneg [of q] by (simp add: power_int_def)
    have "of_int q * (2 :: rat) powi (?k - 1) \<le> 2 powi bitlen q * 2 powi (?k - 1)"
      using lq by (intro mult_right_mono) simp_all
    also have "\<dots> = 2 powi (bitlen p - 1)"
      by (simp flip: power_int_add)
    also note lp
    finally have "2 powi (?k - 1) \<le> x"
      using q by (simp add: x pos_le_divide_eq mult.commute)
    then show ?thesis by (simp only: e)
  qed
qed

lemma binary_exponent_gt:
  assumes "0 < x"
  shows "x < 2 powi (binary_exponent x + 1)"
proof -
  obtain p q where pq: "quotient_of x = (p, q)" by (cases "quotient_of x")
  then have q: "0 < q" and x: "x = of_int p / of_int q"
    by (simp_all add: quotient_of_denom_pos quotient_of_div)
  with assms have p: "0 < p"
    by (simp add: zero_less_divide_iff)
  let ?k = "bitlen p - bitlen q"
  show ?thesis
  proof (cases "of_int q * 2 powi ?k \<le> (of_int p :: rat)")
    case False
    then have e: "binary_exponent x = ?k - 1"
      by (simp add: binary_exponent_def pq)
    from False q have "x < 2 powi ?k"
      by (simp add: x pos_divide_less_eq mult.commute not_le)
    then show ?thesis by (simp only: e) simp
  next
    case True
    then have e: "binary_exponent x = ?k"
      by (simp add: binary_exponent_def pq)
    from bitlen_bounds [OF p] have "p < 2 ^ nat (bitlen p)" by simp
    then have "of_int p < (2 :: rat) ^ nat (bitlen p)"
      by (metis of_int_less_iff of_int_numeral of_int_power)
    then have lp: "of_int p < (2 :: rat) powi bitlen p"
      using bitlen_nonneg [of p] by (simp add: power_int_def)
    from bitlen_bounds [OF q] have "2 ^ nat (bitlen q - 1) \<le> q" by simp
    then have "(2 :: rat) ^ nat (bitlen q - 1) \<le> of_int q"
      by (metis of_int_le_iff of_int_numeral of_int_power)
    moreover from q have "1 \<le> bitlen q"
      by (simp add: bitlen_alt_def)
    ultimately have lq: "(2 :: rat) powi (bitlen q - 1) \<le> of_int q"
      by (simp add: power_int_def)
    note lp
    also have "(2 :: rat) powi bitlen p = 2 powi (bitlen q - 1) * 2 powi (?k + 1)"
      by (simp flip: power_int_add)
    also have "\<dots> \<le> of_int q * 2 powi (?k + 1)"
      using lq by (intro mult_right_mono) simp_all
    finally have "x < 2 powi (?k + 1)"
      using q by (simp add: x pos_divide_less_eq mult.commute)
    then show ?thesis by (simp only: e)
  qed
qed

text \<open>So \<open>binary_exponent\<close> is the exponent that brackets \<open>x\<close>.\<close>

lemma binary_exponent_eq:
  assumes "2 powi e \<le> x" "x < 2 powi (e + 1)"
  shows "binary_exponent x = e"
proof -
  have "(0 :: rat) < 2 powi e" by simp
  from this assms(1) have x: "0 < x" by (rule less_le_trans)
  let ?b = "binary_exponent x"
  have "\<not> e + 1 \<le> ?b"
  proof
    assume "e + 1 \<le> ?b"
    then have "(2 :: rat) powi (e + 1) \<le> 2 powi ?b"
      by (intro power_int_increasing) simp_all
    with binary_exponent_le [OF x] assms(2) show False by simp
  qed
  moreover have "\<not> ?b + 1 \<le> e"
  proof
    assume "?b + 1 \<le> e"
    then have "(2 :: rat) powi (?b + 1) \<le> 2 powi e"
      by (intro power_int_increasing) simp_all
    with binary_exponent_gt [OF x] assms(1) show False by simp
  qed
  ultimately show ?thesis by simp
qed

text \<open>What \<open>round_half_even\<close> returns: the integer within a half, the even one at a tie.\<close>

lemma round_half_even_ge: "of_int n \<le> x \<Longrightarrow> n \<le> round_half_even x"
proof -
  assume "of_int n \<le> x"
  then have "n \<le> \<lfloor>x\<rfloor>" by (simp add: le_floor_iff)
  then show ?thesis
    by (simp add: round_half_even_def Let_def)
qed

lemma round_half_even_near:
  assumes "of_int m - 1 / 2 < x" "x < of_int m + 1 / 2"
  shows "round_half_even x = m"
proof (cases "of_int m \<le> x")
  case True
  with assms(2) have "\<lfloor>x\<rfloor> = m"
    by (intro floor_unique) simp_all
  with assms(2) show ?thesis
    by (simp add: round_half_even_def Let_def)
next
  case False
  with assms(1) have "\<lfloor>x\<rfloor> = m - 1"
    by (intro floor_unique) simp_all
  with assms(1) show ?thesis
    by (simp add: round_half_even_def Let_def)
qed

lemma round_half_even_tie:
  assumes "x = of_int m + 1 / 2"
  shows "round_half_even x = (if even m then m else m + 1)"
proof -
  have "\<lfloor>x\<rfloor> = m"
    by (rule floor_unique) (simp_all add: assms)
  then show ?thesis
    by (simp add: round_half_even_def Let_def assms)
qed

text \<open>
  The double nearest to \<open>x\<close>, from the exponent of \<open>x\<close> and the multiple \<open>m\<close> of
  \<open>2^(e-52)\<close> that is nearest to it.
\<close>

lemma nearest_positive_eq:
  assumes "2 powi e \<le> x" "x < 2 powi (e + 1)" "- 1022 \<le> e"
  shows "nearest_positive x =
     (let y = of_int (round_half_even (x / 2 powi (e - 52))) * 2 powi (e - 52)
      in if 2 powi 1024 \<le> y then Infinity else Finite y)"
  using assms(3) by (simp add: nearest_positive_def binary_exponent_eq [OF assms(1,2)] Let_def max_def)

lemma nearest_double_near:
  assumes "2 powi e \<le> x" "x < 2 powi (e + 1)" "- 1022 \<le> e"
    and "of_int m - 1 / 2 < x / 2 powi (e - 52)" "x / 2 powi (e - 52) < of_int m + 1 / 2"
  shows "nearest_double x =
     (if 2 powi 1024 \<le> of_int m * (2 :: rat) powi (e - 52) then Infinity
      else Finite (of_int m * 2 powi (e - 52)))"
proof -
  have "(0 :: rat) < 2 powi e" by simp
  from this assms(1) have x: "0 < x" by (rule less_le_trans)
  from round_half_even_near [OF assms(4,5)] x show ?thesis
    by (simp add: nearest_double_def nearest_positive_eq [OF assms(1-3)])
qed

lemma nearest_double_tie:
  assumes "2 powi e \<le> x" "x < 2 powi (e + 1)" "- 1022 \<le> e"
    and "x / 2 powi (e - 52) = of_int m + 1 / 2" "even m"
  shows "nearest_double x =
     (if 2 powi 1024 \<le> of_int m * (2 :: rat) powi (e - 52) then Infinity
      else Finite (of_int m * 2 powi (e - 52)))"
proof -
  have "(0 :: rat) < 2 powi e" by simp
  from this assms(1) have x: "0 < x" by (rule less_le_trans)
  from round_half_even_tie [OF assms(4)] assms(5) x show ?thesis
    by (simp add: nearest_double_def nearest_positive_eq [OF assms(1-3)])
qed

text \<open>Whatever is \<open>2^1024\<close> or more is \<^verbatim>\<open>Infinity\<close>.\<close>

lemma nearest_double_overflow:
  assumes "2 powi 1024 \<le> x"
  shows "nearest_double x = Infinity"
proof -
  have "(0 :: rat) < 2 powi 1024" by simp
  from this assms have x: "0 < x" by (rule less_le_trans)
  define e where "e = binary_exponent x"
  have e: "1024 \<le> e"
  proof (rule ccontr)
    assume "\<not> 1024 \<le> e"
    then have "e + 1 \<le> 1024" by simp
    then have "(2 :: rat) powi (e + 1) \<le> 2 powi 1024"
      by (intro power_int_increasing) simp_all
    moreover have "x < 2 powi (e + 1)"
      unfolding e_def by (rule binary_exponent_gt [OF x])
    ultimately show False using assms by linarith
  qed
  define ulp :: rat where "ulp = 2 powi (e - 52)"
  have ulp: "0 < ulp" by (simp add: ulp_def)
  have pe: "(2 :: rat) powi e = 2 ^ 52 * ulp"
    unfolding ulp_def using power_int_add [of "2 :: rat" 52 "e - 52"] by simp
  have "2 powi e \<le> x"
    unfolding e_def by (rule binary_exponent_le [OF x])
  with ulp have "2 ^ 52 \<le> x / ulp"
    by (simp add: pe pos_le_divide_eq)
  then have "of_int (2 ^ 52) \<le> x / ulp" by simp
  then have "2 ^ 52 \<le> round_half_even (x / ulp)"
    by (rule round_half_even_ge)
  then have "(2 :: rat) ^ 52 \<le> of_int (round_half_even (x / ulp))"
    by (metis of_int_le_iff of_int_numeral of_int_power)
  with ulp have "2 ^ 52 * ulp \<le> of_int (round_half_even (x / ulp)) * ulp"
    by (intro mult_right_mono) simp_all
  then have "2 powi e \<le> of_int (round_half_even (x / ulp)) * ulp"
    by (simp only: pe)
  moreover have "(2 :: rat) powi 1024 \<le> 2 powi e"
    using e by (intro power_int_increasing) simp_all
  ultimately have "2 powi 1024 \<le> of_int (round_half_even (x / ulp)) * ulp"
    by (rule order_trans [rotated])
  with x e show ?thesis
    by (simp add: nearest_double_def nearest_positive_def Let_def max_def flip: e_def ulp_def)
qed

text \<open>A number of \<open>1/128\<close> or more does not round to zero.\<close>

lemma nearest_positive_pos:
  assumes "1 / 128 \<le> x"
  shows "nearest_positive x = Infinity \<or> (\<exists>y. nearest_positive x = Finite y \<and> 0 < y)"
proof -
  from assms have x: "0 < x" by simp
  define e where "e = max (binary_exponent x) (- 1022)"
  define ulp :: rat where "ulp = 2 powi (e - 52)"
  have ulp: "0 < ulp" by (simp add: ulp_def)
  have "2 powi e \<le> x"
  proof (cases "- 1022 \<le> binary_exponent x")
    case True
    then show ?thesis
      using binary_exponent_le [OF x] by (simp add: e_def max_def)
  next
    case False
    then have "e = - 1022" by (simp add: e_def max_def)
    moreover have "(2 :: rat) powi (- 1022) \<le> 2 powi (- 7)"
      by (rule power_int_increasing) simp_all
    moreover have "(2 :: rat) powi (- 7) = 1 / 128"
      by (simp add: power_int_def field_simps)
    ultimately show ?thesis using assms by simp
  qed
  moreover have "ulp \<le> 2 powi e"
    unfolding ulp_def by (rule power_int_increasing) simp_all
  ultimately have "ulp \<le> x" by simp
  with ulp have "1 \<le> x / ulp"
    by (simp add: pos_le_divide_eq)
  then have "1 \<le> round_half_even (x / ulp)"
    by (intro round_half_even_ge) simp
  then have "0 < of_int (round_half_even (x / ulp)) * ulp"
    using ulp by (simp add: zero_less_mult_iff)
  then show ?thesis
    by (simp add: nearest_positive_def Let_def e_def ulp_def)
qed


lemma decimal_value_small:
  assumes "length fs \<le> 2" "0 < decimal_value ds fs"
  shows "1 / 128 \<le> decimal_value ds fs"
proof (cases "digits_value ds = 0")
  case False
  then have "(1 :: rat) \<le> of_nat (digits_value ds)" by simp
  moreover have "(0 :: rat) \<le> of_nat (digits_value fs) / 10 ^ length fs" by simp
  ultimately have "1 \<le> decimal_value ds fs"
    unfolding decimal_value_def by linarith
  then show ?thesis by simp
next
  case True
  with assms(2) have "(0 :: rat) < of_nat (digits_value fs) / 10 ^ length fs"
    by (simp add: decimal_value_def)
  then have "(0 :: rat) < of_nat (digits_value fs)"
    by (simp add: zero_less_divide_iff)
  then have "0 < digits_value fs" by simp
  then have b: "(1 :: rat) \<le> of_nat (digits_value fs)" by simp
  have "(10 :: rat) ^ length fs \<le> 10 ^ 2"
    using assms(1) by (intro power_increasing) simp_all
  then have "(10 :: rat) ^ length fs \<le> 100" by simp
  with b have "(1 :: rat) / 100 \<le> of_nat (digits_value fs) / 10 ^ length fs"
    by (intro frac_le) simp_all
  with True show ?thesis
    by (simp add: decimal_value_def)
qed

text \<open>
  The rounding at work: \<open>50\<close> and \<open>12.5\<close> are doubles, \<open>0.1\<close> is not, \<open>2^53 + 1\<close> is a
  tie, twenty nines round up to \<open>10^20\<close>, and \<open>10^309\<close> is beyond the range.
\<close>

lemma nearest_double_50: "nearest_double 50 = Finite 50"
  using nearest_double_near [of 5 50 7036874417766400] by simp

lemma nearest_double_12_5: "nearest_double (25 / 2) = Finite (25 / 2)"
  using nearest_double_near [of 3 "25 / 2" 7036874417766400] by simp

lemma nearest_double_0_1:
  "nearest_double (1 / 10) = Finite (3602879701896397 / 36028797018963968)"
  using nearest_double_near [of "- 4" "1 / 10" 7205759403792794] by simp

lemma nearest_double_2_53_1: "nearest_double 9007199254740993 = Finite 9007199254740992"
  using nearest_double_tie [of 53 9007199254740993 4503599627370496] by simp

lemma nearest_double_twenty_nines:
  "nearest_double 99999999999999999999 = Finite 100000000000000000000"
  using nearest_double_near [of 66 99999999999999999999 6103515625000000] by simp

lemma nearest_double_10_309: "nearest_double (10 ^ 309) = Infinity"
  by (rule nearest_double_overflow) simp

text \<open>
  The test \<^verbatim>\<open>amount <= 0\<close> is made on the double; for a number with at most two
  fraction digits it says what it would say of the number itself.
\<close>

lemma le_zero_decimal:
  assumes "decimal_shape ds fs"
  shows "le_zero (nearest_double (decimal_value ds fs)) \<longleftrightarrow> \<not> 0 < decimal_value ds fs"
proof (cases "0 < decimal_value ds fs")
  case False
  moreover have "0 \<le> decimal_value ds fs"
    by (simp add: decimal_value_def)
  ultimately have "decimal_value ds fs = 0" by simp
  then show ?thesis
    by (simp add: nearest_double_def le_zero_def)
next
  case True
  from assms have "length fs \<le> 2" by (simp add: decimal_shape_def)
  from nearest_positive_pos [OF decimal_value_small [OF this True]] True show ?thesis
    by (auto simp: nearest_double_def le_zero_def)
qed

lemma parseFloat_decimal:
  assumes "decimal_shape ds fs"
  shows "parseFloat (decimal_text ds fs) = Some (nearest_double (decimal_value ds fs))"
proof (cases "fs = []")
  case True
  from assms have tw: "takeWhile is_digit ds = ds" "dropWhile is_digit ds = []" and ds: "ds \<noteq> []"
    by (simp_all add: decimal_shape_def list_all_iff)
  from True ds show ?thesis
    by (simp add: parseFloat_def decimal_text_def Let_def tw)
next
  case False
  from assms have ds: "list_all is_digit ds" "ds \<noteq> []" and fs: "list_all is_digit fs"
    by (simp_all add: decimal_shape_def)
  have tw: "takeWhile is_digit (ds @ dot # fs) = ds" "dropWhile is_digit (ds @ dot # fs) = dot # fs"
    using ds by (simp_all add: takeWhile_stop dropWhile_stop dot_not_digit)
  have tf: "takeWhile is_digit fs = fs"
    using fs by (simp add: list_all_iff)
  from False ds show ?thesis
    by (simp add: parseFloat_def decimal_text_def Let_def tw tf)
qed

text \<open>The number is the longest prefix of digits and dots: white space ends it.\<close>

lemma decimal_text_chars:
  "decimal_shape ds fs \<Longrightarrow> list_all (\<lambda>c. is_digit c \<or> c = dot) (decimal_text ds fs)"
  by (auto simp: decimal_text_def decimal_shape_def list_all_iff)

lemma number_prefix:
  assumes "decimal_shape ds fs" "ws \<noteq> []" "list_all is_space ws"
  shows "takeWhile (\<lambda>c. is_digit c \<or> c = dot) (decimal_text ds fs @ ws @ r) = decimal_text ds fs"
    and "dropWhile (\<lambda>c. is_digit c \<or> c = dot) (decimal_text ds fs @ ws @ r) = ws @ r"
proof -
  from assms have "\<not> (is_digit (hd (ws @ r)) \<or> hd (ws @ r) = dot)"
    by (cases ws) (auto simp: space_not_digit space_not_dot)
  then have stop: "ws @ r = [] \<or> \<not> (is_digit (hd (ws @ r)) \<or> hd (ws @ r) = dot)" ..
  from decimal_text_chars [OF assms(1)] stop
  show "takeWhile (\<lambda>c. is_digit c \<or> c = dot) (decimal_text ds fs @ ws @ r) = decimal_text ds fs"
    by (rule takeWhile_stop)
  from decimal_text_chars [OF assms(1)] stop
  show "dropWhile (\<lambda>c. is_digit c \<or> c = dot) (decimal_text ds fs @ ws @ r) = ws @ r"
    by (rule dropWhile_stop)
qed

lemma number_unique:
  assumes eq: "decimal_text ds fs @ ws @ r = decimal_text ds' fs' @ ws' @ r'"
    and sh: "decimal_shape ds fs" "decimal_shape ds' fs'"
    and ws: "ws \<noteq> []" "list_all is_space ws" and ws': "ws' \<noteq> []" "list_all is_space ws'"
  shows "decimal_text ds fs = decimal_text ds' fs'" and "ws @ r = ws' @ r'"
proof -
  note a = number_prefix [OF sh(1) ws, of r]
  note b = number_prefix [OF sh(2) ws', of r']
  from a(1) b(1) show "decimal_text ds fs = decimal_text ds' fs'"
    by (simp only: eq)
  from a(2) b(2) show "ws @ r = ws' @ r'"
    by (simp only: eq)
qed

lemma dropWhile_space_append:
  "list_all is_space ws \<Longrightarrow> dropWhile is_space (ws @ r) = dropWhile is_space r"
  by (induction ws) auto

lemma trim_drop: "trim (dropWhile is_space s) = trim s"
  by (simp add: trim_def)

lemma trim_eqI: "dropWhile is_space s = dropWhile is_space t \<Longrightarrow> trim s = trim t"
  by (simp add: trim_def)

lemma trim_nonempty: "s \<noteq> [] \<Longrightarrow> \<not> is_space (hd s) \<Longrightarrow> trim s \<noteq> []"
  by (cases s) (auto simp: trim_def dropWhile_append3)

lemma trim_nonemptyD: "trim s \<noteq> [] \<Longrightarrow> dropWhile is_space s \<noteq> []"
proof
  assume "trim s \<noteq> []" "dropWhile is_space s = []"
  then show False by (simp add: trim_def)
qed


text \<open>
  C3, as the code has it.  \<open>parseExpenseInput\<close> returns an amount and a non-empty
  description exactly when the text is a number (integer digits, then optionally a dot and
  one or two digits) of positive value, followed by white space, followed by a remainder
  that begins with a code unit that is not white space and holds no line terminator; the
  amount is the double nearest to that number (\<^verbatim>\<open>Infinity\<close> beyond the range of the
  doubles) and the description is the trimmed remainder.  It returns nothing
  for every text that is not such a number followed by white space and a non-empty
  remainder free of line terminators.  It is a total function: it never raises.
\<close>

theorem parseExpenseInput_grammar:
  "((parseExpenseInput text = Some \<lparr>amount = a, description = d\<rparr> \<and> d \<noteq> []) \<longleftrightarrow>
      (\<exists>ds fs ws rest.
         text = decimal_text ds fs @ ws @ rest \<and> decimal_shape ds fs \<and> 0 < decimal_value ds fs
         \<and> ws \<noteq> [] \<and> list_all is_space ws
         \<and> rest \<noteq> [] \<and> \<not> is_space (hd rest) \<and> list_all (\<lambda>c. \<not> is_line_terminator c) rest
         \<and> a = nearest_double (decimal_value ds fs) \<and> d = trim rest))
   \<and> (\<not> (\<exists>ds fs ws rest.
         text = decimal_text ds fs @ ws @ rest \<and> decimal_shape ds fs \<and> 0 < decimal_value ds fs
         \<and> ws \<noteq> [] \<and> list_all is_space ws
         \<and> rest \<noteq> [] \<and> list_all (\<lambda>c. \<not> is_line_terminator c) rest)
       \<longrightarrow> parseExpenseInput text = None)"
proof (rule conjI [OF iffI impI])
  assume "parseExpenseInput text = Some \<lparr>amount = a, description = d\<rparr> \<and> d \<noteq> []"
  then have p: "parseExpenseInput text = Some \<lparr>amount = a, description = d\<rparr>" and d: "d \<noteq> []"
    by simp_all
  from p obtain g1 g2 where m: "expense_match text = Some (g1, g2)"
    by (auto simp: parseExpenseInput_def split: option.splits)
  from expense_match_Some [OF m] obtain ds fs ws where
    t: "text = decimal_text ds fs @ ws @ g2" and g1: "g1 = decimal_text ds fs"
    and sh: "decimal_shape ds fs" and ws: "ws \<noteq> []" "list_all is_space ws"
    and g2: "g2 \<noteq> []" "list_all (\<lambda>c. \<not> is_line_terminator c) g2"
    by (rule expense_matches_sound)
  from p m g1 parseFloat_decimal [OF sh]
  have a: "a = nearest_double (decimal_value ds fs)" and nz: "\<not> le_zero a" and dg: "d = trim g2"
    by (auto simp: parseExpenseInput_def split: if_splits)
  from nz have pos: "0 < decimal_value ds fs"
    by (simp add: a le_zero_decimal [OF sh])
  define rest where "rest = dropWhile is_space g2"
  define ws' where "ws' = ws @ takeWhile is_space g2"
  have "text = decimal_text ds fs @ ws' @ rest"
    by (simp add: t ws'_def rest_def)
  moreover have "ws' \<noteq> []" "list_all is_space ws'"
    using ws by (auto simp: ws'_def list_all_iff dest: set_takeWhileD)
  moreover have r: "rest \<noteq> []"
    using d dg trim_nonemptyD [of g2] by (simp add: rest_def)
  moreover have "\<not> is_space (hd rest)"
    using r hd_dropWhile [of is_space g2] by (simp add: rest_def)
  moreover have "list_all (\<lambda>c. \<not> is_line_terminator c) rest"
    using g2(2) by (auto simp: rest_def list_all_iff dest: set_dropWhileD)
  moreover have "d = trim rest"
    by (simp add: dg rest_def trim_drop)
  ultimately show "\<exists>ds fs ws rest.
         text = decimal_text ds fs @ ws @ rest \<and> decimal_shape ds fs \<and> 0 < decimal_value ds fs
         \<and> ws \<noteq> [] \<and> list_all is_space ws
         \<and> rest \<noteq> [] \<and> \<not> is_space (hd rest) \<and> list_all (\<lambda>c. \<not> is_line_terminator c) rest
         \<and> a = nearest_double (decimal_value ds fs) \<and> d = trim rest"
    using sh a pos by blast
next
  assume "\<exists>ds fs ws rest.
         text = decimal_text ds fs @ ws @ rest \<and> decimal_shape ds fs \<and> 0 < decimal_value ds fs
         \<and> ws \<noteq> [] \<and> list_all is_space ws
         \<and> rest \<noteq> [] \<and> \<not> is_space (hd rest) \<and> list_all (\<lambda>c. \<not> is_line_terminator c) rest
         \<and> a = nearest_double (decimal_value ds fs) \<and> d = trim rest"
  then obtain ds fs ws rest where
    t: "text = decimal_text ds fs @ ws @ rest" and sh: "decimal_shape ds fs"
    and pos: "0 < decimal_value ds fs" and ws: "ws \<noteq> []" "list_all is_space ws"
    and rest: "rest \<noteq> []" "\<not> is_space (hd rest)" "list_all (\<lambda>c. \<not> is_line_terminator c) rest"
    and a: "a = nearest_double (decimal_value ds fs)" and d: "d = trim rest"
    by blast
  from expense_matches_complete [OF sh ws rest(1) rest(3)] t
  have "expense_matches text \<noteq> []" by auto
  then obtain g1 g2 where m: "expense_match text = Some (g1, g2)"
    by (cases "expense_match text") (auto simp: expense_match_None)
  from expense_match_Some [OF m] obtain ds' fs' ws' where
    t': "text = decimal_text ds' fs' @ ws' @ g2" and g1: "g1 = decimal_text ds' fs'"
    and sh': "decimal_shape ds' fs'" and ws': "ws' \<noteq> []" "list_all is_space ws'"
    by (rule expense_matches_sound)
  from t t' have eq: "decimal_text ds fs @ ws @ rest = decimal_text ds' fs' @ ws' @ g2"
    by simp
  note u = number_unique [OF eq sh sh' ws ws']
  from u(1) g1 parseFloat_decimal [OF sh]
  have pf: "parseFloat g1 = Some (nearest_double (decimal_value ds fs))"
    by simp
  from pos have nz: "\<not> le_zero (nearest_double (decimal_value ds fs))"
    by (simp add: le_zero_decimal [OF sh])
  have "dropWhile is_space (ws @ rest) = dropWhile is_space (ws' @ g2)"
    by (simp only: u(2))
  then have "dropWhile is_space rest = dropWhile is_space g2"
    using ws ws' by (simp add: dropWhile_space_append)
  then have tr: "trim g2 = trim rest"
    by (rule trim_eqI [symmetric])
  from m pf nz a d tr have "parseExpenseInput text = Some \<lparr>amount = a, description = d\<rparr>"
    by (simp add: parseExpenseInput_def)
  moreover from rest d have "d \<noteq> []"
    by (simp add: trim_nonempty)
  ultimately show "parseExpenseInput text = Some \<lparr>amount = a, description = d\<rparr> \<and> d \<noteq> []"
    by simp
next
  assume no: "\<not> (\<exists>ds fs ws rest.
         text = decimal_text ds fs @ ws @ rest \<and> decimal_shape ds fs \<and> 0 < decimal_value ds fs
         \<and> ws \<noteq> [] \<and> list_all is_space ws
         \<and> rest \<noteq> [] \<and> list_all (\<lambda>c. \<not> is_line_terminator c) rest)"
  show "parseExpenseInput text = None"
  proof (cases "expense_match text")
    case None
    then show ?thesis by (simp add: parseExpenseInput_def)
  next
    case (Some m)
    obtain g1 g2 where mm: "m = (g1, g2)" by (cases m)
    from expense_match_Some [OF Some [unfolded mm]] obtain ds fs ws where
      t: "text = decimal_text ds fs @ ws @ g2" and g1: "g1 = decimal_text ds fs"
      and sh: "decimal_shape ds fs" and ws: "ws \<noteq> []" "list_all is_space ws"
      and g2: "g2 \<noteq> []" "list_all (\<lambda>c. \<not> is_line_terminator c) g2"
      by (rule expense_matches_sound)
    from no t sh ws g2 have "\<not> 0 < decimal_value ds fs" by blast
    then have "le_zero (nearest_double (decimal_value ds fs))"
      by (simp add: le_zero_decimal [OF sh])
    with Some mm g1 parseFloat_decimal [OF sh] show ?thesis
      by (simp add: parseExpenseInput_def)
  qed
qed


text \<open>
  The theorem at \<^verbatim>\<open>"50 lunch"\<close>, which the grammar accepts, and at \<^verbatim>\<open>"l"\<close>, which has
  no number.
\<close>

theorem parseExpenseInput_grammar_witness:
  "parseExpenseInput [0x35, 0x30, 0x20, 0x6C, 0x75, 0x6E, 0x63, 0x68] =
     Some \<lparr>amount = Finite 50, description = [0x6C, 0x75, 0x6E, 0x63, 0x68]\<rparr>
   \<and> parseExpenseInput [0x6C] = None"
proof
  let ?t = "[0x35, 0x30, 0x20, 0x6C, 0x75, 0x6E, 0x63, 0x68] :: jsstring"
  let ?d = "[0x6C, 0x75, 0x6E, 0x63, 0x68] :: jsstring"
  have v: "decimal_value [0x35, 0x30] [] = 50"
    by (simp add: decimal_value_def digits_value_def)
  note n = nearest_double_50
  have "?t = decimal_text [0x35, 0x30] [] @ [0x20] @ ?d \<and> decimal_shape [0x35, 0x30] []
         \<and> 0 < decimal_value [0x35, 0x30] []
         \<and> [0x20 :: jschar] \<noteq> [] \<and> list_all is_space [0x20]
         \<and> ?d \<noteq> [] \<and> \<not> is_space (hd ?d) \<and> list_all (\<lambda>c. \<not> is_line_terminator c) ?d
         \<and> Finite 50 = nearest_double (decimal_value [0x35, 0x30] []) \<and> ?d = trim ?d"
    by (simp add: v n decimal_text_def decimal_shape_def
          is_digit_def is_space_def is_line_terminator_def trim_def)
  then have "\<exists>ds fs ws rest.
         ?t = decimal_text ds fs @ ws @ rest \<and> decimal_shape ds fs \<and> 0 < decimal_value ds fs
         \<and> ws \<noteq> [] \<and> list_all is_space ws
         \<and> rest \<noteq> [] \<and> \<not> is_space (hd rest) \<and> list_all (\<lambda>c. \<not> is_line_terminator c) rest
         \<and> Finite 50 = nearest_double (decimal_value ds fs) \<and> ?d = trim rest"
    by blast
  with parseExpenseInput_grammar [of ?t "Finite 50" ?d]
  show "parseExpenseInput ?t = Some \<lparr>amount = Finite 50, description = ?d\<rparr>"
    by blast
next
  have "\<not> (\<exists>ds fs ws rest.
         [0x6C] = decimal_text ds fs @ ws @ rest \<and> decimal_shape ds fs \<and> 0 < decimal_value ds fs
         \<and> ws \<noteq> [] \<and> list_all is_space ws
         \<and> rest \<noteq> [] \<and> list_all (\<lambda>c. \<not> is_line_terminator c) rest)"
  proof
    assume "\<exists>ds fs ws rest.
         [0x6C] = decimal_text ds fs @ ws @ rest \<and> decimal_shape ds fs \<and> 0 < decimal_value ds fs
         \<and> ws \<noteq> [] \<and> list_all is_space ws
         \<and> rest \<noteq> [] \<and> list_all (\<lambda>c. \<not> is_line_terminator c) rest"
    then obtain ds fs ws rest where
      "[0x6C] = decimal_text ds fs @ ws @ rest" "decimal_shape ds fs"
      by blast
    then show False
      by (cases ds) (auto simp: decimal_text_def decimal_shape_def is_digit_def)
  qed
  with parseExpenseInput_grammar [of "[0x6C]" "Finite 0" "[]"]
  show "parseExpenseInput [0x6C] = None"
    by blast
qed

text \<open>
  C3 as the claim states it fails.  For \<^verbatim>\<open>"50 a\nb"\<close> the remainder after the white
  space has a non-empty trimmed form, and the parser returns nothing.  For \<^verbatim>\<open>"50  "\<close>,
  a number followed by two spaces, the description is missing, and the parser returns the
  amount with an empty description.  For \<^verbatim>\<open>"99999999999999999999 x"\<close> the amount
  returned is not the number written but the double nearest to it, \<open>10^20\<close>.
\<close>

theorem parseExpenseInput_claim_counterexample:
  "parseExpenseInput [0x35, 0x30, 0x20, 0x61, 0x0A, 0x62] = None
   \<and> trim [0x61, 0x0A, 0x62] \<noteq> []
   \<and> parseExpenseInput [0x35, 0x30, 0x20, 0x20] = Some \<lparr>amount = Finite 50, description = []\<rparr>
   \<and> trim [0x20] = []
   \<and> parseExpenseInput
        [0x39, 0x39, 0x39, 0x39, 0x39, 0x39, 0x39, 0x39, 0x39, 0x39,
         0x39, 0x39, 0x39, 0x39, 0x39, 0x39, 0x39, 0x39, 0x39, 0x39, 0x20, 0x78] =
       Some \<lparr>amount = Finite 100000000000000000000, description = [0x78]\<rparr>
   \<and> decimal_value
        [0x39, 0x39, 0x39, 0x39, 0x39, 0x39, 0x39, 0x39, 0x39, 0x39,
         0x39, 0x39, 0x39, 0x39, 0x39, 0x39, 0x39, 0x39, 0x39, 0x39] [] = 99999999999999999999"
  by (simp add: parseExpenseInput_def expense_match_def expense_matches_def number_def seq_def
        opt_def parseFloat_def decimal_value_def digits_value_def trim_def is_digit_def
        is_space_def is_line_terminator_def dot_def le_zero_def
        nearest_double_50 nearest_double_twenty_nines)

section \<open>Properties of the store and of the button for a category\<close>

subsection \<open>What the requests change\<close>

lemma getOrCreateUser_failed: "getOrCreateUser False t d = (None, d)"
  by (simp add: getOrCreateUser_def)

lemma getOrCreateUser_pending:
  "pending_expenses (snd (getOrCreateUser ok t d)) = pending_expenses d"
  by (simp add: getOrCreateUser_def Let_def split: option.splits)

lemma getOrCreateUser_expense:
  "expense (snd (getOrCreateUser ok t d)) = expense d"
  by (simp add: getOrCreateUser_def Let_def split: option.splits)

lemma getOrCreateUser_custom_of:
  "custom_of (snd (getOrCreateUser ok t d)) v = custom_of d v"
  by (simp add: getOrCreateUser_def custom_of_def custom_or_empty_def Let_def split: option.splits)

lemma getOrCreateUser_found:
  "\<exists>u. fst (getOrCreateUser True t d) = Some u \<and> users (snd (getOrCreateUser True t d)) t = Some u
       \<and> row_id u = (case users d t of None \<Rightarrow> next_id d | Some u' \<Rightarrow> row_id u')"
  by (simp add: getOrCreateUser_def Let_def split: option.splits)

lemma getOrCreateUser_custom:
  "custom_or_empty (fst (getOrCreateUser True t d)) = custom_of d t"
  by (simp add: getOrCreateUser_def custom_of_def custom_or_empty_def Let_def split: option.splits)

lemma getOrCreateUser_again:
  "getOrCreateUser True t (snd (getOrCreateUser True t d)) = getOrCreateUser True t d"
  by (simp add: getOrCreateUser_def Let_def split: option.splits)

lemma custom_or_empty_None: "custom_or_empty None = []"
  by (simp add: custom_or_empty_def)

lemma getUserCategories_fst:
  "fst (getUserCategories ok t d) = DEFAULT_CATEGORIES @ (if ok then custom_of d t else [])"
  by (cases ok)
    (simp_all add: getUserCategories_def split_def Let_def getOrCreateUser_custom
       getOrCreateUser_failed custom_or_empty_None)

lemma select_pending_getOrCreateUser:
  "select_pending ok t (snd (getOrCreateUser ok' t' d)) = select_pending ok t d"
  by (simp add: select_pending_def getOrCreateUser_pending)

lemma getUserCategories_snd:
  "snd (getUserCategories ok t d) = snd (getOrCreateUser ok t d)"
  by (simp add: getUserCategories_def split_def Let_def)

lemma length_DEFAULT_CATEGORIES: "length DEFAULT_CATEGORIES = 12"
  by (simp add: DEFAULT_CATEGORIES_def)

lemma distinct_DEFAULT_CATEGORIES: "distinct DEFAULT_CATEGORIES"
  by (simp add: DEFAULT_CATEGORIES_def)

lemma update_custom_pending:
  "pending_expenses (snd (update_custom ok t cs d)) = pending_expenses d"
  by (simp add: update_custom_def split: option.splits)

lemma update_custom_expense:
  "expense (snd (update_custom ok t cs d)) = expense d"
  by (simp add: update_custom_def split: option.splits)

lemma update_custom_done:
  "users d t = Some u \<Longrightarrow>
     fst (update_custom True t cs d) = False \<and>
     custom_of (snd (update_custom True t cs d)) v = (if v = t then cs else custom_of d v)"
  by (simp add: update_custom_def custom_of_def custom_or_empty_def)

lemmas getOrCreateUser_frame =
  getOrCreateUser_pending getOrCreateUser_expense getOrCreateUser_custom_of

lemma callback_query_cat:
  "starts_with data cat_prefix \<Longrightarrow>
     callback_query r c sender data d = cat_callback r c sender data d"
  by (simp add: callback_query_def)

lemma cat_callback_expired:
  assumes "select_pending (select_ok r) (sender_id sender) d = None"
  shows "cat_callback r c sender data d =
           (Returned [AnswerCallbackQuery (Some SessionExpired)],
            snd (getOrCreateUser (user_ok r) (sender_id sender) d))"
  using assms
  by (simp add: cat_callback_def cat_read_def Let_def split_def select_pending_getOrCreateUser)

lemma cat_callback_commit:
  assumes "select_pending (select_ok r) (sender_id sender) d = Some p"
  shows "cat_callback r c sender data d =
           cat_commit r c (sender_id sender)
             (fst (getOrCreateUser (user_ok r) (sender_id sender) d)) p
             (js_index (DEFAULT_CATEGORIES @ (if categories_ok r then custom_of d (sender_id sender) else []))
                (payload_index data))
             (snd (getOrCreateUser (categories_ok r) (sender_id sender)
                (snd (getOrCreateUser (user_ok r) (sender_id sender) d))))"
  using assms
  by (simp add: cat_callback_def cat_read_def cat_resolve_def Let_def split_def
        select_pending_getOrCreateUser getOrCreateUser_frame getUserCategories_fst
        getUserCategories_snd)

lemma cat_commit_expense:
  "expense (snd (cat_commit r c t (Some u) p l d)) =
     (if insert_ok r
      then expense d @ [\<lparr>user_id = row_id u, expense_amount = pending_amount p,
                          expense_description = pending_description p,
                          category = l, expense_created_at = now c\<rparr>]
      else expense d)"
  by (simp add: cat_commit_def Let_def insert_expense_def delete_pending_def delete_older_def)

lemma cat_commit_pending:
  "pending_expenses (snd (cat_commit r c t (Some u) p l d)) v =
     (if delete_ok r \<and> v = t then None
      else if sweep_ok r
      then (case pending_expenses d v of
              None \<Rightarrow> None
            | Some q \<Rightarrow> if pending_created_at q < now c - 60 * 60 * 1000 then None else Some q)
      else pending_expenses d v)"
  by (simp add: cat_commit_def Let_def insert_expense_def delete_pending_def delete_older_def
        cong: option.case_cong)

lemma cat_commit_out:
  "fst (cat_commit r c t (Some u) p l d) =
     (if \<not> sweep_answered r then Waiting []
      else if insert_ok r
      then Returned [EditMessageText (ExpenseSaved (pending_amount p) (pending_description p) l),
                     AnswerCallbackQuery None]
      else Returned [EditMessageText SaveFailed, ConsoleError, AnswerCallbackQuery None])"
  by (simp add: cat_commit_def Let_def)


lemma cat_commit_no_user: "cat_commit r c t None p l d = (Threw [], d)"
  by (simp add: cat_commit_def)

lemma select_pending_SomeD:
  "select_pending ok t d = Some p \<Longrightarrow> pending_expenses d t = Some p"
  by (simp add: select_pending_def split: if_splits)


subsection \<open>A press without a pending row\<close>

text \<open>
  C6.  When a press of a category button finds no pending row for the user (there is
  none, or the read fails), the handler answers the press with the notice that the session
  expired and does nothing else: the ledger, the pending rows and every user's custom
  categories are as before, and no message is edited.
\<close>

theorem cat_callback_session_expired:
  assumes "starts_with data cat_prefix"
    and "select_pending (select_ok r) (sender_id sender) d = None"
    and "callback_query r c sender data d = (out, d')"
  shows "out = Returned [AnswerCallbackQuery (Some SessionExpired)]
         \<and> expense d' = expense d
         \<and> pending_expenses d' = pending_expenses d
         \<and> (\<forall>v. custom_of d' v = custom_of d v)"
  using assms
  by (auto simp: callback_query_cat cat_callback_expired getOrCreateUser_frame)


text \<open>The theorem for a user the store has never seen.\<close>

theorem cat_callback_session_expired_witness:
  "starts_with cat_0 cat_prefix
   \<and> select_pending (select_ok all_ok) (sender_id (Some [0x39])) example_db = None
   \<and> fst (callback_query all_ok example_clock (Some [0x39]) cat_0 example_db) =
       Returned [AnswerCallbackQuery (Some SessionExpired)]
   \<and> expense (snd (callback_query all_ok example_clock (Some [0x39]) cat_0 example_db)) =
       expense example_db
   \<and> pending_expenses (snd (callback_query all_ok example_clock (Some [0x39]) cat_0 example_db)) =
       pending_expenses example_db"
proof -
  have cat: "starts_with cat_0 cat_prefix"
    by (simp add: cat_0_def cat_prefix_def starts_with_def)
  have sel: "select_pending (select_ok all_ok) (sender_id (Some [0x39])) example_db = None"
    by (simp add: select_pending_def sender_id_def example_db_def alice_def bob_def all_ok_def)
  have cb: "callback_query all_ok example_clock (Some [0x39]) cat_0 example_db =
      (fst (callback_query all_ok example_clock (Some [0x39]) cat_0 example_db),
       snd (callback_query all_ok example_clock (Some [0x39]) cat_0 example_db))"
    by simp
  from cat_callback_session_expired [OF cat sel cb] cat sel show ?thesis
    by blast
qed

subsection \<open>A press whose insert fails\<close>

text \<open>
  C1, as the code has it.  The ledger after a press is the ledger before it, or that
  ledger with one whole row appended.  When the insert fails the ledger is unchanged, and,
  the user and the pending row having been found and the three requests answered, the user
  is shown the failure message and the error is logged.  The delete of the pending row is issued together with the
  insert, whatever the insert's result: the row is gone when that delete succeeds (or when
  the sweep succeeds and the row is older than an hour) and stays otherwise.
\<close>

theorem cat_callback_append_fails:
  assumes cat: "starts_with data cat_prefix"
    and cb: "callback_query r c sender data d = (out, d')"
  shows "(expense d' = expense d
          \<or> (\<exists>(u :: user_row) p l. select_pending (select_ok r) (sender_id sender) d = Some p
                \<and> expense d' = expense d @
                     [\<lparr>user_id = row_id u, expense_amount = pending_amount p,
                       expense_description = pending_description p,
                       category = l, expense_created_at = now c\<rparr>]))
         \<and> (\<not> insert_ok r \<longrightarrow> expense d' = expense d)
         \<and> (\<not> insert_ok r \<and> user_ok r \<and> sweep_answered r
              \<and> select_pending (select_ok r) (sender_id sender) d = Some p \<longrightarrow>
              out = Returned [EditMessageText SaveFailed, ConsoleError, AnswerCallbackQuery None]
              \<and> pending_expenses d' (sender_id sender) =
                  (if delete_ok r \<or> (sweep_ok r \<and> pending_created_at p < now c - 60 * 60 * 1000)
                   then None else Some p))"
proof -
  let ?t = "sender_id sender"
  from cat cb have "cat_callback r c sender data d = (out, d')"
    by (simp add: callback_query_cat)
  then have out: "out = fst (cat_callback r c sender data d)"
    and d': "d' = snd (cat_callback r c sender data d)"
    by simp_all
  show ?thesis
  proof (cases "select_pending (select_ok r) ?t d")
    case None
    then show ?thesis
      by (simp add: d' cat_callback_expired getOrCreateUser_frame)
  next
    case (Some q)
    note q = select_pending_SomeD [OF Some]
    show ?thesis
    proof (cases "user_ok r")
      case False
      then show ?thesis
        by (simp add: d' cat_callback_commit [OF Some] getOrCreateUser_failed
              cat_commit_no_user getOrCreateUser_frame)
    next
      case True
      from getOrCreateUser_found [of ?t d] obtain u where
        u: "fst (getOrCreateUser True ?t d) = Some u" by blast
      have e: "expense d' =
          (if insert_ok r
           then expense d @ [\<lparr>user_id = row_id u, expense_amount = pending_amount q,
                   expense_description = pending_description q,
                   category = js_index (DEFAULT_CATEGORIES @ (if categories_ok r then custom_of d ?t else []))
                     (payload_index data),
                   expense_created_at = now c\<rparr>]
           else expense d)"
        using True u
        by (simp add: d' cat_callback_commit [OF Some] cat_commit_expense getOrCreateUser_frame)
      have p: "pending_expenses d' ?t =
          (if delete_ok r \<or> (sweep_ok r \<and> pending_created_at q < now c - 60 * 60 * 1000)
           then None else Some q)"
        using True u q
        by (simp add: d' cat_callback_commit [OF Some] cat_commit_pending getOrCreateUser_frame)
      have o: "\<not> insert_ok r \<Longrightarrow> sweep_answered r \<Longrightarrow>
          out = Returned [EditMessageText SaveFailed, ConsoleError, AnswerCallbackQuery None]"
        using True u
        by (simp add: out cat_callback_commit [OF Some] cat_commit_out)
      from e have 1: "expense d' = expense d
          \<or> (\<exists>(u :: user_row) p l. select_pending (select_ok r) ?t d = Some p
                \<and> expense d' = expense d @
                     [\<lparr>user_id = row_id u, expense_amount = pending_amount p,
                       expense_description = pending_description p,
                       category = l, expense_created_at = now c\<rparr>])"
      proof (cases "insert_ok r")
        case True
        with e Some show ?thesis by simp blast
      next
        case False
        with e show ?thesis by simp
      qed
      from e have 2: "\<not> insert_ok r \<longrightarrow> expense d' = expense d"
        by simp
      from p o Some have 3: "\<not> insert_ok r \<and> user_ok r \<and> sweep_answered r
              \<and> select_pending (select_ok r) ?t d = Some p \<longrightarrow>
              out = Returned [EditMessageText SaveFailed, ConsoleError, AnswerCallbackQuery None]
              \<and> pending_expenses d' ?t =
                  (if delete_ok r \<or> (sweep_ok r \<and> pending_created_at p < now c - 60 * 60 * 1000)
                   then None else Some p)"
        by auto
      from 1 2 3 show ?thesis by blast
    qed
  qed
qed


text \<open>The theorem for a press whose insert and delete both fail: the pending row stays.\<close>

theorem cat_callback_append_fails_witness:
  "starts_with cat_0 cat_prefix
   \<and> \<not> insert_ok (all_ok\<lparr>insert_ok := False, delete_ok := False\<rparr>)
   \<and> select_pending True alice example_db = Some lunch
   \<and> fst (callback_query (all_ok\<lparr>insert_ok := False, delete_ok := False\<rparr>) example_clock
        (Some alice) cat_0 example_db) =
       Returned [EditMessageText SaveFailed, ConsoleError, AnswerCallbackQuery None]
   \<and> expense (snd (callback_query (all_ok\<lparr>insert_ok := False, delete_ok := False\<rparr>) example_clock
        (Some alice) cat_0 example_db)) = expense example_db
   \<and> pending_expenses (snd (callback_query (all_ok\<lparr>insert_ok := False, delete_ok := False\<rparr>)
        example_clock (Some alice) cat_0 example_db)) alice = Some lunch"
proof -
  let ?r = "all_ok\<lparr>insert_ok := False, delete_ok := False\<rparr>"
  have cat: "starts_with cat_0 cat_prefix"
    by (simp add: cat_0_def cat_prefix_def starts_with_def)
  have cb: "callback_query ?r example_clock (Some alice) cat_0 example_db =
      (fst (callback_query ?r example_clock (Some alice) cat_0 example_db),
       snd (callback_query ?r example_clock (Some alice) cat_0 example_db))"
    by simp
  have sel: "select_pending True alice example_db = Some lunch"
    by (simp add: select_pending_def example_db_def alice_def bob_def)
  have h: "\<not> insert_ok ?r \<and> user_ok ?r \<and> sweep_answered ?r
      \<and> select_pending (select_ok ?r) (sender_id (Some alice)) example_db = Some lunch"
    using sel by (simp add: all_ok_def sender_id_def)
  from cat_callback_append_fails [OF cat cb, of lunch] h
  have "expense (snd (callback_query ?r example_clock (Some alice) cat_0 example_db)) =
      expense example_db"
    and "fst (callback_query ?r example_clock (Some alice) cat_0 example_db) =
      Returned [EditMessageText SaveFailed, ConsoleError, AnswerCallbackQuery None]"
    and "pending_expenses (snd (callback_query ?r example_clock (Some alice) cat_0 example_db))
        (sender_id (Some alice)) =
      (if delete_ok ?r \<or> (sweep_ok ?r \<and> pending_created_at lunch < now example_clock - 60 * 60 * 1000)
       then None else Some lunch)"
    by blast+
  moreover have "\<not> (delete_ok ?r \<or> (sweep_ok ?r \<and> pending_created_at lunch < now example_clock - 60 * 60 * 1000))"
    by (simp add: all_ok_def lunch_def example_clock_def)
  ultimately show ?thesis
    using cat sel h by (simp add: sender_id_def)
qed


text \<open>
  C1 as the claim states it fails: the insert fails, the delete succeeds, and the pending
  row that was there before the press is gone after it.
\<close>

theorem cat_callback_append_fails_counterexample:
  "pending_expenses example_db alice = Some lunch
   \<and> fst (callback_query (all_ok\<lparr>insert_ok := False\<rparr>) example_clock (Some alice) cat_0 example_db) =
       Returned [EditMessageText SaveFailed, ConsoleError, AnswerCallbackQuery None]
   \<and> pending_expenses
       (snd (callback_query (all_ok\<lparr>insert_ok := False\<rparr>) example_clock (Some alice) cat_0
          example_db)) alice = None"
  by (simp add: cat_defs store_defs string_defs example_defs Let_def)


subsection \<open>A press with an index beyond the category list\<close>

lemma js_index_beyond: "int (length xs) \<le> i \<Longrightarrow> js_index xs (Some i) = None"
  by (simp add: js_index_def)


text \<open>
  C4.  The branch for \<^verbatim>\<open>cat_\<close> does not compare the index of the payload with the
  length of the category list.  For every payload whose index is at or beyond the length
  of the user's current list, when the user has a pending row and the store carries out
  the requests, the handler appends an expense whose category is the result of the lookup
  out of range, \<^verbatim>\<open>undefined\<close>, deletes the pending row and confirms.
\<close>

theorem cat_callback_no_bounds_check:
  assumes cat: "starts_with data cat_prefix"
    and idx: "payload_index data = Some i"
    and beyond: "int (length (DEFAULT_CATEGORIES @ custom_of d (sender_id sender))) \<le> i"
    and pending: "pending_expenses d (sender_id sender) = Some p"
    and ok: "user_ok r" "select_ok r" "insert_ok r" "delete_ok r" "sweep_answered r"
    and cb: "callback_query r c sender data d = (out, d')"
  shows "out = Returned [EditMessageText (ExpenseSaved (pending_amount p) (pending_description p) None),
                         AnswerCallbackQuery None]
         \<and> expense d' = expense d @
               [\<lparr>user_id = (case users d (sender_id sender) of None \<Rightarrow> next_id d | Some u \<Rightarrow> row_id u),
                 expense_amount = pending_amount p, expense_description = pending_description p,
                 category = None, expense_created_at = now c\<rparr>]
         \<and> pending_expenses d' (sender_id sender) = None"
proof -
  let ?t = "sender_id sender"
  from cat cb have "cat_callback r c sender data d = (out, d')"
    by (simp add: callback_query_cat)
  then have out: "out = fst (cat_callback r c sender data d)"
    and d': "d' = snd (cat_callback r c sender data d)"
    by simp_all
  from pending ok have sel: "select_pending (select_ok r) ?t d = Some p"
    by (simp add: select_pending_def)
  from getOrCreateUser_found [of ?t d] obtain u where
    u: "fst (getOrCreateUser True ?t d) = Some u"
      "row_id u = (case users d ?t of None \<Rightarrow> next_id d | Some u' \<Rightarrow> row_id u')"
    by blast
  from beyond have l: "js_index (DEFAULT_CATEGORIES @ (if categories_ok r then custom_of d ?t else []))
      (payload_index data) = None"
    unfolding idx by (intro js_index_beyond) (simp split: if_splits)
  from u ok show ?thesis
    by (simp add: out d' cat_callback_commit [OF sel] l cat_commit_out cat_commit_expense
          cat_commit_pending getOrCreateUser_frame)
qed


text \<open>The theorem for \<^verbatim>\<open>"cat_12"\<close> and a user with the twelve default categories.\<close>

theorem cat_callback_no_bounds_check_witness:
  "starts_with cat_12 cat_prefix
   \<and> payload_index cat_12 = Some 12
   \<and> int (length (DEFAULT_CATEGORIES @ custom_of example_db (sender_id (Some alice)))) \<le> 12
   \<and> pending_expenses example_db (sender_id (Some alice)) = Some lunch
   \<and> expense (snd (callback_query all_ok example_clock (Some alice) cat_12 example_db)) =
       [\<lparr>user_id = 0, expense_amount = 50, expense_description = [0x6C, 0x75, 0x6E, 0x63, 0x68],
         category = None, expense_created_at = 4000000\<rparr>]
   \<and> pending_expenses (snd (callback_query all_ok example_clock (Some alice) cat_12 example_db))
        alice = None"
proof -
  have cat: "starts_with cat_12 cat_prefix"
    by (simp add: cat_12_def cat_prefix_def starts_with_def)
  have idx: "payload_index cat_12 = Some 12"
    by (simp add: cat_12_def string_defs)
  have beyond: "int (length (DEFAULT_CATEGORIES @ custom_of example_db (sender_id (Some alice)))) \<le> 12"
    by (simp add: DEFAULT_CATEGORIES_def store_defs example_defs)
  have pending: "pending_expenses example_db (sender_id (Some alice)) = Some lunch"
    by (simp add: store_defs example_defs)
  have ok: "user_ok all_ok" "select_ok all_ok" "insert_ok all_ok" "delete_ok all_ok"
    "sweep_answered all_ok"
    by (simp_all add: all_ok_def)
  have cb: "callback_query all_ok example_clock (Some alice) cat_12 example_db =
      (fst (callback_query all_ok example_clock (Some alice) cat_12 example_db),
       snd (callback_query all_ok example_clock (Some alice) cat_12 example_db))"
    by simp
  from cat_callback_no_bounds_check [OF cat idx beyond pending ok cb]
  have "expense (snd (callback_query all_ok example_clock (Some alice) cat_12 example_db)) =
       expense example_db @
         [\<lparr>user_id = (case users example_db (sender_id (Some alice)) of
                        None \<Rightarrow> next_id example_db | Some u \<Rightarrow> row_id u),
           expense_amount = pending_amount lunch, expense_description = pending_description lunch,
           category = None, expense_created_at = now example_clock\<rparr>]"
    and "pending_expenses (snd (callback_query all_ok example_clock (Some alice) cat_12 example_db))
        (sender_id (Some alice)) = None"
    by blast+
  moreover have "(case users example_db (sender_id (Some alice)) of
                    None \<Rightarrow> next_id example_db | Some u \<Rightarrow> row_id u) = 0"
    by (simp add: store_defs example_defs)
  moreover have "expense example_db = []" "sender_id (Some alice) = alice"
    by (simp_all add: store_defs example_defs)
  ultimately show ?thesis
    using cat idx beyond pending
    by (simp add: lunch_def example_clock_def)
qed


subsection \<open>The sweep\<close>

text \<open>
  When a press of a category button gets as far as its sweep (the user and the pending
  row were found) and the store carries the sweep out, every pending row older than one
  hour, of any user, is gone afterwards: reading it yields nothing.  The pending rows of
  other users that are not older than one hour stay.  The result of the sweep decides
  nothing of the commit: whether the store carries it out or fails it, the reply to the
  user and the ledger are the same.
\<close>

lemma cat_callback_sweep_effect:
  assumes cat: "starts_with data cat_prefix"
    and sel: "select_pending (select_ok r) (sender_id sender) d = Some p"
    and ok: "user_ok r" "sweep_ok r" "sweep_answered r"
    and cb: "callback_query r c sender data d = (out, d')"
  shows "(\<forall>v q. pending_expenses d v = Some q \<and> pending_created_at q < now c - 60 * 60 * 1000
            \<longrightarrow> select_pending True v d' = None)
         \<and> (\<forall>v q. v \<noteq> sender_id sender \<and> pending_expenses d v = Some q
               \<and> \<not> pending_created_at q < now c - 60 * 60 * 1000
            \<longrightarrow> select_pending True v d' = Some q)
         \<and> fst (callback_query (r\<lparr>sweep_ok := b\<rparr>) c sender data d) = out
         \<and> expense (snd (callback_query (r\<lparr>sweep_ok := b\<rparr>) c sender data d)) = expense d'"
proof -
  let ?t = "sender_id sender"
  from cat cb have "cat_callback r c sender data d = (out, d')"
    by (simp add: callback_query_cat)
  then have out: "out = fst (cat_callback r c sender data d)"
    and d': "d' = snd (cat_callback r c sender data d)"
    by simp_all
  from getOrCreateUser_found [of ?t d] obtain u where
    u: "fst (getOrCreateUser True ?t d) = Some u" by blast
  have sel': "select_pending (select_ok (r\<lparr>sweep_ok := b\<rparr>)) ?t d = Some p"
    using sel by simp
  have 1: "\<forall>v q. pending_expenses d v = Some q \<and> pending_created_at q < now c - 60 * 60 * 1000
            \<longrightarrow> select_pending True v d' = None"
    using u ok
    by (auto simp add: d' select_pending_def cat_callback_commit [OF sel] cat_commit_pending
          getOrCreateUser_frame)
  have 4: "\<forall>v q. v \<noteq> sender_id sender \<and> pending_expenses d v = Some q
               \<and> \<not> pending_created_at q < now c - 60 * 60 * 1000
            \<longrightarrow> select_pending True v d' = Some q"
    using u ok
    by (auto simp add: d' select_pending_def cat_callback_commit [OF sel] cat_commit_pending
          getOrCreateUser_frame)
  have 2: "fst (callback_query (r\<lparr>sweep_ok := b\<rparr>) c sender data d) = out"
    using u ok cat
    by (simp add: out callback_query_cat cat_callback_commit [OF sel] cat_callback_commit [OF sel']
          cat_commit_out)
  have 3: "expense (snd (callback_query (r\<lparr>sweep_ok := b\<rparr>) c sender data d)) = expense d'"
    using u ok cat
    by (simp add: d' callback_query_cat cat_callback_commit [OF sel] cat_callback_commit [OF sel']
          cat_commit_expense)
  from 1 2 3 4 show ?thesis by blast
qed


text \<open>
  A press of user \<^verbatim>\<open>"42"\<close>: the pending row of user \<^verbatim>\<open>"7"\<close>, older than an hour, is
  swept.
\<close>

lemma cat_callback_sweep_example:
  "starts_with cat_0 cat_prefix
   \<and> select_pending (select_ok all_ok) (sender_id (Some alice)) example_db = Some lunch
   \<and> pending_expenses example_db bob = Some coffee
   \<and> pending_created_at coffee < now example_clock - 60 * 60 * 1000
   \<and> select_pending True bob
        (snd (callback_query all_ok example_clock (Some alice) cat_0 example_db)) = None"
proof -
  have cat: "starts_with cat_0 cat_prefix"
    by (simp add: cat_0_def cat_prefix_def starts_with_def)
  have sel: "select_pending (select_ok all_ok) (sender_id (Some alice)) example_db = Some lunch"
    by (simp add: store_defs example_defs)
  have ok: "user_ok all_ok" "sweep_ok all_ok" "sweep_answered all_ok"
    by (simp_all add: all_ok_def)
  have cb: "callback_query all_ok example_clock (Some alice) cat_0 example_db =
      (fst (callback_query all_ok example_clock (Some alice) cat_0 example_db),
       snd (callback_query all_ok example_clock (Some alice) cat_0 example_db))"
    by simp
  have old: "pending_expenses example_db bob = Some coffee"
    "pending_created_at coffee < now example_clock - 60 * 60 * 1000"
    by (simp_all add: example_defs)
  from cat_callback_sweep_effect [OF cat sel ok cb] old
  have "select_pending True bob
        (snd (callback_query all_ok example_clock (Some alice) cat_0 example_db)) = None"
    by blast
  with cat sel old show ?thesis by blast
qed

text \<open>
  C5 fails on the code in its last part.  The sweep is not sent off into the
  background: it is the third member of the \<^verbatim>\<open>Promise.all\<close> that the handler awaits
  before it edits the message.  While the answer to the sweep is outstanding the expense
  has been appended and the pending row deleted, and the user sees no confirmation; with
  the answer, the same press is confirmed.
\<close>

theorem cat_callback_waits_for_sweep:
  "fst (callback_query (all_ok\<lparr>sweep_answered := False\<rparr>) example_clock (Some alice) cat_0
        example_db) = Waiting []
   \<and> length (expense (snd (callback_query (all_ok\<lparr>sweep_answered := False\<rparr>) example_clock
        (Some alice) cat_0 example_db))) = 1
   \<and> pending_expenses (snd (callback_query (all_ok\<lparr>sweep_answered := False\<rparr>) example_clock
        (Some alice) cat_0 example_db)) alice = None
   \<and> fst (callback_query all_ok example_clock (Some alice) cat_0 example_db) =
       Returned [EditMessageText (ExpenseSaved 50 [0x6C, 0x75, 0x6E, 0x63, 0x68]
                   (Some [0xD83C, 0xDF54, 0x20, 0x46, 0x6F, 0x6F, 0x64])),
                 AnswerCallbackQuery None]"
  by (simp add: cat_defs store_defs string_defs example_defs DEFAULT_CATEGORIES_def Let_def)

section \<open>Properties of the category registry\<close>

subsection \<open>Adding a category\<close>

lemma getOrCreateUser_users:
  "\<exists>u. users (snd (getOrCreateUser True t d)) t = Some u"
  using getOrCreateUser_found [of t d] by blast

lemma add_command_usage:
  "add_args text = [] \<Longrightarrow> add_command r (Some t) text d = (Returned [Reply AddUsage], d)"
  by (simp add: add_command_def)

lemma add_command_exists:
  assumes "add_args text \<noteq> []" "user_ok r" "categories_ok r"
    and "add_args text \<in> set (DEFAULT_CATEGORIES @ custom_of d t)"
  shows "add_command r (Some t) text d =
           (Returned [Reply AlreadyExists], snd (getOrCreateUser True t d))"
  using assms
  by (simp add: add_command_def Let_def split_def getUserCategories_fst getUserCategories_snd
        getOrCreateUser_frame getOrCreateUser_again)

lemma add_command_new:
  assumes "add_args text \<noteq> []" "user_ok r" "categories_ok r" "update_ok r"
    and "add_args text \<notin> set (DEFAULT_CATEGORIES @ custom_of d t)"
  shows "add_command r (Some t) text d =
           (Returned [Reply (Added (add_args text))],
            snd (update_custom True t (custom_of d t @ [add_args text])
                   (snd (getOrCreateUser True t d))))"
  using assms
  by (simp add: add_command_def Let_def split_def getUserCategories_fst getUserCategories_snd
        getOrCreateUser_frame getOrCreateUser_again getOrCreateUser_custom update_custom_def)

lemma add_command_new_custom:
  assumes "add_args text \<noteq> []" "user_ok r" "categories_ok r" "update_ok r"
    and "add_args text \<notin> set (DEFAULT_CATEGORIES @ custom_of d t)"
  shows "custom_of (snd (add_command r (Some t) text d)) v =
           (if v = t then custom_of d t @ [add_args text] else custom_of d v)"
proof -
  from getOrCreateUser_users [of t d] obtain u where
    "users (snd (getOrCreateUser True t d)) t = Some u" ..
  from update_custom_done [OF this, of "custom_of d t @ [add_args text]" v]
  show ?thesis
    by (simp add: add_command_new [OF assms] getOrCreateUser_frame)
qed

lemma add_D_args: "add_args add_D = [0x44]"
  by (simp add: add_D_def add_args_def trim_def is_space_def is_line_terminator_def)

lemma custom_of_bob: "custom_of example_db bob = [[0x41], [0x42], [0x43]]"
  by (simp add: custom_of_def custom_or_empty_def example_db_def)

lemma custom_of_alice: "custom_of example_db alice = []"
  by (simp add: custom_of_def custom_or_empty_def example_db_def alice_def bob_def)

lemma D_is_new: "add_args add_D \<notin> set (DEFAULT_CATEGORIES @ custom_of example_db bob)"
  by (simp add: add_D_args custom_of_bob DEFAULT_CATEGORIES_def)


subsection \<open>The effective category list\<close>

text \<open>
  C9.  For every user, when the store answers, \<open>getUserCategories\<close> returns the twelve
  default categories in their fixed order followed by the user's custom categories as the
  store holds them at that moment; the first twelve entries are the defaults in any case.
  Reading the list changes no custom categories.  The list is computed from the store at
  every call: after a category has been added, the next call returns the former list with
  the new label at its end, so custom categories appear in the order they were added.
\<close>

theorem getUserCategories_effective:
  "(ok \<longrightarrow> fst (getUserCategories ok t d) = DEFAULT_CATEGORIES @ custom_of d t)
   \<and> length DEFAULT_CATEGORIES = 12
   \<and> take 12 (fst (getUserCategories ok t d)) = DEFAULT_CATEGORIES
   \<and> custom_of (snd (getUserCategories ok t d)) = custom_of d
   \<and> (add_command all_ok (Some t) text d = (Returned [Reply (Added l)], d') \<longrightarrow>
        fst (getUserCategories True t d') = DEFAULT_CATEGORIES @ custom_of d t @ [l])"
proof -
  have 1: "ok \<longrightarrow> fst (getUserCategories ok t d) = DEFAULT_CATEGORIES @ custom_of d t"
    by (simp add: getUserCategories_fst)
  have 2: "take 12 (fst (getUserCategories ok t d)) = DEFAULT_CATEGORIES"
    by (simp add: getUserCategories_fst length_DEFAULT_CATEGORIES)
  have 3: "custom_of (snd (getUserCategories ok t d)) = custom_of d"
    by (rule ext) (simp add: getUserCategories_snd getOrCreateUser_frame)
  have 4: "fst (getUserCategories True t d') = DEFAULT_CATEGORIES @ custom_of d t @ [l]"
    if a: "add_command all_ok (Some t) text d = (Returned [Reply (Added l)], d')"
  proof -
    have ok: "user_ok all_ok" "categories_ok all_ok" "update_ok all_ok"
      by (simp_all add: all_ok_def)
    show ?thesis
    proof (cases "add_args text = []")
      case True
      with a show ?thesis by (simp add: add_command_usage)
    next
      case False
      show ?thesis
      proof (cases "add_args text \<in> set (DEFAULT_CATEGORIES @ custom_of d t)")
        case True
        with a False ok show ?thesis by (simp add: add_command_exists)
      next
        case new: False
        from a add_command_new [OF False ok new] have l: "l = add_args text"
          by simp
        from a have "d' = snd (add_command all_ok (Some t) text d)" by simp
        then show ?thesis
          by (simp add: getUserCategories_fst add_command_new_custom [OF False ok new] l)
      qed
    qed
  qed
  from 1 2 3 4 length_DEFAULT_CATEGORIES show ?thesis by blast
qed


text \<open>The theorem for user \<^verbatim>\<open>"7"\<close>, before and after \<^verbatim>\<open>"/add D"\<close>.\<close>

theorem getUserCategories_effective_witness:
  "fst (getUserCategories True bob example_db) = DEFAULT_CATEGORIES @ [[0x41], [0x42], [0x43]]
   \<and> add_command all_ok (Some bob) add_D example_db =
       (Returned [Reply (Added [0x44])], snd (add_command all_ok (Some bob) add_D example_db))
   \<and> fst (getUserCategories True bob (snd (add_command all_ok (Some bob) add_D example_db))) =
       DEFAULT_CATEGORIES @ [[0x41], [0x42], [0x43], [0x44]]"
proof -
  have ok: "user_ok all_ok" "categories_ok all_ok" "update_ok all_ok"
    by (simp_all add: all_ok_def)
  have "add_args add_D \<noteq> []"
    by (simp add: add_D_args)
  from add_command_new [OF this ok D_is_new]
  have a: "add_command all_ok (Some bob) add_D example_db =
      (Returned [Reply (Added [0x44])], snd (add_command all_ok (Some bob) add_D example_db))"
    by (simp add: add_D_args)
  from getUserCategories_effective [of True bob example_db add_D "[0x44]" "snd (add_command all_ok (Some bob) add_D example_db)"] a
  show ?thesis
    by (simp add: custom_of_bob)
qed


subsection \<open>No category twice\<close>

text \<open>
  C7, as the code has it.  The label of \<^verbatim>\<open>/add\<close> is the rest of the message split at
  runs of white space, joined with single spaces and trimmed.  With the store answering:
  an empty label gets the usage hint and changes nothing; a label equal, code unit by code
  unit, to an entry of the user's effective category list as the store holds it at the
  check is refused as already existing and the custom categories of every user stay as
  they are; any other label is appended to the user's custom categories, those of other
  users stay, and a second identical \<^verbatim>\<open>/add\<close> is refused and changes nothing.
\<close>

theorem add_command_unique:
  assumes ok: "user_ok r" "categories_ok r" "update_ok r"
    and add: "add_command r (Some t) text d = (out, d')"
  shows "(add_args text = [] \<longrightarrow> out = Returned [Reply AddUsage] \<and> d' = d)
         \<and> (add_args text \<noteq> [] \<and> add_args text \<in> set (fst (getUserCategories True t d)) \<longrightarrow>
              out = Returned [Reply AlreadyExists] \<and> custom_of d' = custom_of d)
         \<and> (add_args text \<noteq> [] \<and> add_args text \<notin> set (fst (getUserCategories True t d)) \<longrightarrow>
              out = Returned [Reply (Added (add_args text))]
              \<and> custom_of d' t = custom_of d t @ [add_args text]
              \<and> (\<forall>v. v \<noteq> t \<longrightarrow> custom_of d' v = custom_of d v)
              \<and> fst (add_command r (Some t) text d') = Returned [Reply AlreadyExists]
              \<and> custom_of (snd (add_command r (Some t) text d')) = custom_of d')"
proof -
  from add have out: "out = fst (add_command r (Some t) text d)"
    and d': "d' = snd (add_command r (Some t) text d)"
    by simp_all
  have 1: "add_args text = [] \<longrightarrow> out = Returned [Reply AddUsage] \<and> d' = d"
    by (simp add: out d' add_command_usage)
  have 2: "out = Returned [Reply AlreadyExists] \<and> custom_of d' = custom_of d"
    if "add_args text \<noteq> []" "add_args text \<in> set (fst (getUserCategories True t d))"
  proof -
    from that have "add_args text \<in> set (DEFAULT_CATEGORIES @ custom_of d t)"
      by (simp add: getUserCategories_fst)
    from add_command_exists [OF that(1) ok(1,2) this] show ?thesis
      by (simp add: out d' getOrCreateUser_frame fun_eq_iff)
  qed
  have 3: "out = Returned [Reply (Added (add_args text))]
              \<and> custom_of d' t = custom_of d t @ [add_args text]
              \<and> (\<forall>v. v \<noteq> t \<longrightarrow> custom_of d' v = custom_of d v)
              \<and> fst (add_command r (Some t) text d') = Returned [Reply AlreadyExists]
              \<and> custom_of (snd (add_command r (Some t) text d')) = custom_of d'"
    if "add_args text \<noteq> []" "add_args text \<notin> set (fst (getUserCategories True t d))"
  proof -
    from that have new: "add_args text \<notin> set (DEFAULT_CATEGORIES @ custom_of d t)"
      by (simp add: getUserCategories_fst)
    note c = add_command_new_custom [OF that(1) ok new]
    from c have "add_args text \<in> set (DEFAULT_CATEGORIES @ custom_of d' t)"
      by (simp add: d')
    note again = add_command_exists [OF that(1) ok(1,2) this]
    from add_command_new [OF that(1) ok new] c again show ?thesis
      by (simp add: out d' getOrCreateUser_frame fun_eq_iff)
  qed
  from 1 2 3 show ?thesis by blast
qed


text \<open>The theorem for user \<^verbatim>\<open>"7"\<close> sending \<^verbatim>\<open>"/add D"\<close> twice.\<close>

theorem add_command_unique_witness:
  "user_ok all_ok \<and> categories_ok all_ok \<and> update_ok all_ok
   \<and> add_args add_D \<noteq> [] \<and> add_args add_D \<notin> set (fst (getUserCategories True bob example_db))
   \<and> fst (add_command all_ok (Some bob) add_D example_db) = Returned [Reply (Added [0x44])]
   \<and> custom_of (snd (add_command all_ok (Some bob) add_D example_db)) bob =
       [[0x41], [0x42], [0x43], [0x44]]
   \<and> fst (add_command all_ok (Some bob) add_D
            (snd (add_command all_ok (Some bob) add_D example_db))) =
       Returned [Reply AlreadyExists]
   \<and> custom_of (snd (add_command all_ok (Some bob) add_D
                       (snd (add_command all_ok (Some bob) add_D example_db)))) bob =
       [[0x41], [0x42], [0x43], [0x44]]"
proof -
  have ok: "user_ok all_ok" "categories_ok all_ok" "update_ok all_ok"
    by (simp_all add: all_ok_def)
  have add: "add_command all_ok (Some bob) add_D example_db =
      (fst (add_command all_ok (Some bob) add_D example_db),
       snd (add_command all_ok (Some bob) add_D example_db))"
    by simp
  have new: "add_args add_D \<noteq> []"
    "add_args add_D \<notin> set (fst (getUserCategories True bob example_db))"
    using D_is_new by (simp_all add: add_D_args getUserCategories_fst)
  from add_command_unique [OF ok add] new
  have "fst (add_command all_ok (Some bob) add_D example_db) = Returned [Reply (Added (add_args add_D))]"
    and "custom_of (snd (add_command all_ok (Some bob) add_D example_db)) bob =
          custom_of example_db bob @ [add_args add_D]"
    and "fst (add_command all_ok (Some bob) add_D
            (snd (add_command all_ok (Some bob) add_D example_db))) =
       Returned [Reply AlreadyExists]"
    and "custom_of (snd (add_command all_ok (Some bob) add_D
                       (snd (add_command all_ok (Some bob) add_D example_db)))) =
       custom_of (snd (add_command all_ok (Some bob) add_D example_db))"
    by blast+
  with ok new show ?thesis
    by (simp add: add_D_args custom_of_bob)
qed


text \<open>
  C7 as the claim states it fails on a label with a run of white space inside.  The
  label of the first default category written with two spaces is, trimmed, equal to no
  entry of the list; the claim has it appended, and the handler refuses it as already
  existing, because it compares the label with its runs of white space collapsed.
\<close>

theorem add_command_label_counterexample:
  "trim food_two_spaces \<notin> set (fst (getUserCategories True alice example_db))
   \<and> fst (add_command all_ok (Some alice) add_food example_db) = Returned [Reply AlreadyExists]
   \<and> custom_of (snd (add_command all_ok (Some alice) add_food example_db)) alice = []"
proof -
  have ok: "user_ok all_ok" "categories_ok all_ok"
    by (simp_all add: all_ok_def)
  have args: "add_args add_food = [0xD83C, 0xDF54, 0x20, 0x46, 0x6F, 0x6F, 0x64]"
    by (simp add: add_food_def food_two_spaces_def add_args_def trim_def is_space_def
          is_line_terminator_def)
  have tr: "trim food_two_spaces = food_two_spaces"
    by (simp add: food_two_spaces_def trim_def is_space_def is_line_terminator_def)
  have 1: "trim food_two_spaces \<notin> set (fst (getUserCategories True alice example_db))"
    by (simp add: tr getUserCategories_fst custom_of_alice)
      (simp add: food_two_spaces_def DEFAULT_CATEGORIES_def)
  have "add_args add_food \<noteq> []"
    "add_args add_food \<in> set (DEFAULT_CATEGORIES @ custom_of example_db alice)"
    by (simp_all add: args DEFAULT_CATEGORIES_def)
  from add_command_exists [OF this(1) ok this(2)]
  have "add_command all_ok (Some alice) add_food example_db =
      (Returned [Reply AlreadyExists], snd (getOrCreateUser True alice example_db))" .
  with 1 show ?thesis
    by (simp add: getOrCreateUser_frame custom_of_alice)
qed


subsection \<open>Removing a category\<close>

text \<open>
  An index at or beyond the length of the custom list is refused, and an index inside it
  removes that entry and moves the later ones down by one.
\<close>

lemma filter_enumerate_other:
  "k < length xs \<Longrightarrow>
     map snd (filter (\<lambda>(j, x). j \<noteq> n + k) (enumerate n xs)) = take k xs @ drop (Suc k) xs"
proof (induction xs arbitrary: n k)
  case Nil
  then show ?case by simp
next
  case (Cons x xs)
  show ?case
  proof (cases k)
    case 0
    have "filter (\<lambda>(j, x). j \<noteq> n) (enumerate (Suc n) xs) = enumerate (Suc n) xs"
      by (rule filter_True) (auto simp: in_set_enumerate_eq)
    with 0 show ?thesis by simp
  next
    case (Suc k')
    with Cons.prems have "k' < length xs" by simp
    from Cons.IH [OF this, of "Suc n"] Suc show ?thesis by simp
  qed
qed

lemma filter_index_in_range:
  assumes "0 \<le> i" "i < int (length xs)"
  shows "filter_index xs (Some i) = take (nat i) xs @ drop (Suc (nat i)) xs"
proof -
  from assms have "(\<lambda>(j :: nat, x :: 'a). Some (int j) \<noteq> Some i) = (\<lambda>(j, x). j \<noteq> 0 + nat i)"
    by (auto simp: fun_eq_iff)
  moreover from assms have "nat i < length xs" by simp
  ultimately show ?thesis
    unfolding filter_index_def by (simp only: filter_enumerate_other)
qed

lemma filter_index_outside:
  "idx = None \<or> (\<exists>i. idx = Some i \<and> (i < 0 \<or> int (length xs) \<le> i)) \<Longrightarrow> filter_index xs idx = xs"
proof -
  assume a: "idx = None \<or> (\<exists>i. idx = Some i \<and> (i < 0 \<or> int (length xs) \<le> i))"
  have "filter (\<lambda>(j, x). Some (int j) \<noteq> idx) (enumerate 0 xs) = enumerate 0 xs"
    by (rule filter_True) (use a in \<open>auto simp: in_set_enumerate_eq\<close>)
  then show ?thesis
    by (simp add: filter_index_def)
qed

lemma remove_callback_beyond:
  assumes "payload_index data = Some i" "int (length (custom_of d (sender_id sender))) \<le> i"
    and "user_ok r"
  shows "remove_callback r sender data d =
           (Returned [AnswerCallbackQuery (Some InvalidCategory)],
            snd (getOrCreateUser True (sender_id sender) d))"
  using assms
  by (simp add: remove_callback_def Let_def split_def getOrCreateUser_custom index_ge_def)

lemma remove_callback_in_range:
  assumes idx: "payload_index data = Some i" "0 \<le> i" "i < int (length (custom_of d (sender_id sender)))"
    and ok: "user_ok r" "update_ok r"
  shows "fst (remove_callback r sender data d) =
           Returned [EditMessageText (Removed (Some (custom_of d (sender_id sender) ! nat i))),
                     AnswerCallbackQuery None]"
    and "custom_of (snd (remove_callback r sender data d)) v =
           (if v = sender_id sender
            then take (nat i) (custom_of d v) @ drop (Suc (nat i)) (custom_of d v)
            else custom_of d v)"
proof -
  let ?t = "sender_id sender"
  from getOrCreateUser_users [of ?t d] obtain u where
    u: "users (snd (getOrCreateUser True ?t d)) ?t = Some u" ..
  have r: "remove_callback r sender data d =
      (Returned [EditMessageText (Removed (js_index (custom_of d ?t) (Some i))), AnswerCallbackQuery None],
       snd (update_custom True ?t (filter_index (custom_of d ?t) (Some i))
              (snd (getOrCreateUser True ?t d))))"
    using idx ok
    by (simp add: remove_callback_def Let_def split_def getOrCreateUser_custom index_ge_def
          update_custom_def)
  from idx show "fst (remove_callback r sender data d) =
           Returned [EditMessageText (Removed (Some (custom_of d ?t ! nat i))),
                     AnswerCallbackQuery None]"
    by (simp add: r js_index_def)
  from update_custom_done [OF u, of "filter_index (custom_of d ?t) (Some i)" v] idx
  show "custom_of (snd (remove_callback r sender data d)) v =
           (if v = ?t then take (nat i) (custom_of d v) @ drop (Suc (nat i)) (custom_of d v)
            else custom_of d v)"
    by (simp add: r filter_index_in_range getOrCreateUser_frame)
qed

lemma remove_not_cat: "starts_with data remove_prefix \<Longrightarrow> \<not> starts_with data cat_prefix"
proof
  assume "starts_with data remove_prefix" "starts_with data cat_prefix"
  then have a: "take (length remove_prefix) data = remove_prefix"
    "take (length cat_prefix) data = cat_prefix"
    by (simp_all add: starts_with_def)
  have "take (length cat_prefix) (take (length remove_prefix) data) = take (length cat_prefix) data"
    by (simp add: remove_prefix_def cat_prefix_def)
  with a have "take (length cat_prefix) remove_prefix = cat_prefix"
    by simp
  then show False
    by (simp add: remove_prefix_def cat_prefix_def)
qed

lemma callback_query_remove:
  "starts_with data remove_prefix \<Longrightarrow>
     callback_query r c sender data d = remove_callback r sender data d"
  by (simp add: callback_query_def remove_not_cat)

lemma remove_0_example:
  "custom_of (snd (callback_query all_ok example_clock (Some bob) remove_0 example_db)) bob =
     [[0x42], [0x43]]
   \<and> fst (callback_query all_ok example_clock (Some bob) remove_0 example_db) =
     Returned [EditMessageText (Removed (Some [0x41])), AnswerCallbackQuery None]"
proof -
  have p: "starts_with remove_0 remove_prefix"
    by (simp add: remove_0_def remove_prefix_def starts_with_def)
  have idx: "payload_index remove_0 = Some 0" "(0::int) \<le> 0"
    "0 < int (length (custom_of example_db (sender_id (Some bob))))"
    by (simp_all add: remove_0_def string_defs sender_id_def custom_of_bob)
  have ok: "user_ok all_ok" "update_ok all_ok"
    by (simp_all add: all_ok_def)
  from remove_callback_in_range(1) [OF idx ok] remove_callback_in_range(2) [OF idx ok, of bob]
  show ?thesis
    by (simp add: callback_query_remove [OF p] sender_id_def custom_of_bob)
qed


lemma remove_3_example:
  "callback_query all_ok example_clock (Some bob) remove_3 example_db =
     (Returned [AnswerCallbackQuery (Some InvalidCategory)], example_db)"
proof -
  have p: "starts_with remove_3 remove_prefix"
    by (simp add: remove_3_def remove_prefix_def starts_with_def)
  have idx: "payload_index remove_3 = Some 3"
    "int (length (custom_of example_db (sender_id (Some bob)))) \<le> 3"
    by (simp_all add: remove_3_def string_defs sender_id_def custom_of_bob)
  have "user_ok all_ok"
    by (simp add: all_ok_def)
  from remove_callback_beyond [OF idx this] show ?thesis
    by (simp add: callback_query_remove [OF p] sender_id_def getOrCreateUser_def example_db_def)
qed

text \<open>
  C8 fails on the code for an index below zero.  The handler refuses an index only when
  \<^verbatim>\<open>categoryIndex >= customCategories.length\<close>; the payload \<^verbatim>\<open>"remove_-1"\<close> passes that
  test, the filter removes nothing, the list is written back as it was, and the user is
  told that the category \<^verbatim>\<open>undefined\<close> was removed, where the claim has the answer
  that the index is out of range.
\<close>

theorem remove_callback_negative_index:
  "starts_with remove_minus_1 remove_prefix
   \<and> payload_index remove_minus_1 = Some (- 1)
   \<and> custom_of example_db bob = [[0x41], [0x42], [0x43]]
   \<and> fst (callback_query all_ok example_clock (Some bob) remove_minus_1 example_db) =
       Returned [EditMessageText (Removed None), AnswerCallbackQuery None]
   \<and> custom_of (snd (callback_query all_ok example_clock (Some bob) remove_minus_1 example_db)) bob =
       [[0x41], [0x42], [0x43]]"
proof -
  have p: "starts_with remove_minus_1 remove_prefix"
    by (simp add: remove_minus_1_def remove_prefix_def starts_with_def)
  have idx: "payload_index remove_minus_1 = Some (- 1)"
    by (simp add: remove_minus_1_def string_defs)
  from getOrCreateUser_users [of bob example_db] obtain u where
    u: "users (snd (getOrCreateUser True bob example_db)) bob = Some u" ..
  have f: "filter_index (custom_of example_db bob) (Some (- 1)) = custom_of example_db bob"
    by (rule filter_index_outside) simp
  have r: "remove_callback all_ok (Some bob) remove_minus_1 example_db =
      (Returned [EditMessageText (Removed (js_index (custom_of example_db bob) (Some (- 1)))),
                 AnswerCallbackQuery None],
       snd (update_custom True bob (filter_index (custom_of example_db bob) (Some (- 1)))
              (snd (getOrCreateUser True bob example_db))))"
    by (simp add: remove_callback_def Let_def split_def getOrCreateUser_custom index_ge_def
          update_custom_def idx sender_id_def all_ok_def)
  from update_custom_done [OF u, of "custom_of example_db bob" bob] p idx show ?thesis
    by (simp add: callback_query_remove [OF p] r f [unfolded custom_of_bob] js_index_def
          custom_of_bob)
qed


section \<open>Commands and the pending row\<close>

lemma getOrCreateUser_ignores_pending:
  "getOrCreateUser ok t (d\<lparr>pending_expenses := q\<rparr>) =
     (fst (getOrCreateUser ok t d), (snd (getOrCreateUser ok t d))\<lparr>pending_expenses := q\<rparr>)"
  by (simp add: getOrCreateUser_def Let_def split: option.splits)

lemma update_custom_ignores_pending:
  "update_custom ok t cs (d\<lparr>pending_expenses := q\<rparr>) =
     (fst (update_custom ok t cs d), (snd (update_custom ok t cs d))\<lparr>pending_expenses := q\<rparr>)"
  by (simp add: update_custom_def split: option.splits)

lemma select_expenses_ignores_pending:
  "select_expenses ok uid P (d\<lparr>pending_expenses := q\<rparr>) = select_expenses ok uid P d"
  by (simp add: select_expenses_def)

lemma update_custom_failed_flag: "fst (update_custom ok t cs d) = (\<not> ok)"
  by (simp add: update_custom_def)

lemma report_command_frame:
  "pending_expenses (snd (report_command r P sender d)) = pending_expenses d"
  "expense (snd (report_command r P sender d)) = expense d"
  "custom_of (snd (report_command r P sender d)) v = custom_of d v"
  by (simp_all add: report_command_def Let_def split_def getOrCreateUser_frame
        split: option.splits)

lemma report_command_ignores_pending:
  "report_command r P sender (d\<lparr>pending_expenses := q\<rparr>) =
     (fst (report_command r P sender d), (snd (report_command r P sender d))\<lparr>pending_expenses := q\<rparr>)"
  by (simp add: report_command_def Let_def split_def getOrCreateUser_ignores_pending
        select_expenses_ignores_pending split: option.splits)

lemma add_command_frame:
  "pending_expenses (snd (add_command r sender text d)) = pending_expenses d"
  "expense (snd (add_command r sender text d)) = expense d"
  by (simp_all add: add_command_def Let_def split_def getOrCreateUser_frame getUserCategories_snd
        update_custom_pending update_custom_expense split: option.splits)

lemma getUserCategories_ignores_pending:
  "getUserCategories ok t (d\<lparr>pending_expenses := q\<rparr>) =
     (fst (getUserCategories ok t d), (snd (getUserCategories ok t d))\<lparr>pending_expenses := q\<rparr>)"
  by (simp add: getUserCategories_def Let_def split_def getOrCreateUser_ignores_pending)

lemma add_command_ignores_pending:
  "add_command r sender text (d\<lparr>pending_expenses := q\<rparr>) =
     (fst (add_command r sender text d), (snd (add_command r sender text d))\<lparr>pending_expenses := q\<rparr>)"
  by (simp add: add_command_def Let_def split_def getOrCreateUser_ignores_pending
        getUserCategories_ignores_pending update_custom_ignores_pending update_custom_failed_flag
        split: option.splits)

lemma remove_command_frame:
  "pending_expenses (snd (remove_command r sender d)) = pending_expenses d"
  "expense (snd (remove_command r sender d)) = expense d"
  "custom_of (snd (remove_command r sender d)) v = custom_of d v"
  by (simp_all add: remove_command_def Let_def split_def getOrCreateUser_frame
        split: option.splits)

lemma remove_command_ignores_pending:
  "remove_command r sender (d\<lparr>pending_expenses := q\<rparr>) =
     (fst (remove_command r sender d), (snd (remove_command r sender d))\<lparr>pending_expenses := q\<rparr>)"
  by (simp add: remove_command_def Let_def split_def getOrCreateUser_ignores_pending
        split: option.splits)

lemma remove_callback_pending:
  "pending_expenses (snd (remove_callback r sender data d)) = pending_expenses d"
  by (simp add: remove_callback_def Let_def split_def getOrCreateUser_frame update_custom_pending)


text \<open>
  C10.  Every command (\<^verbatim>\<open>/start\<close>, \<^verbatim>\<open>/expenses\<close>, \<^verbatim>\<open>/day\<close>, \<^verbatim>\<open>/month\<close>,
  \<^verbatim>\<open>/categories\<close>, and also \<^verbatim>\<open>/add\<close> and \<^verbatim>\<open>/remove\<close>) leaves the pending rows of all
  users as they are, and does not look at them: run on a store with other pending rows it
  replies the same and changes the rest of the store in the same way.  Every command but
  \<^verbatim>\<open>/add\<close> leaves the custom categories of every user as they are.  The button that
  removes a category leaves the pending rows alone too.
\<close>

theorem commands_leave_pending:
  "pending_expenses (snd (handle_command cmd r c sender text d)) = pending_expenses d
   \<and> handle_command cmd r c sender text (d\<lparr>pending_expenses := q\<rparr>) =
       (fst (handle_command cmd r c sender text d),
        (snd (handle_command cmd r c sender text d))\<lparr>pending_expenses := q\<rparr>)
   \<and> (cmd \<noteq> Add \<longrightarrow> custom_of (snd (handle_command cmd r c sender text d)) = custom_of d)
   \<and> pending_expenses (snd (remove_callback r sender data d)) = pending_expenses d"
proof -
  have 1: "pending_expenses (snd (handle_command cmd r c sender text d)) = pending_expenses d"
    by (cases cmd)
      (simp_all add: start_command_def expenses_command_def day_command_def month_command_def
         categories_command_def report_command_frame add_command_frame remove_command_frame)
  have 2: "handle_command cmd r c sender text (d\<lparr>pending_expenses := q\<rparr>) =
       (fst (handle_command cmd r c sender text d),
        (snd (handle_command cmd r c sender text d))\<lparr>pending_expenses := q\<rparr>)"
    by (cases cmd)
      (simp_all add: start_command_def expenses_command_def day_command_def month_command_def
         categories_command_def report_command_ignores_pending add_command_ignores_pending
         remove_command_ignores_pending)
  have 3: "cmd \<noteq> Add \<longrightarrow> custom_of (snd (handle_command cmd r c sender text d)) = custom_of d"
    by (cases cmd)
      (simp_all add: fun_eq_iff start_command_def expenses_command_def day_command_def
         month_command_def categories_command_def report_command_frame remove_command_frame)
  from 1 2 3 remove_callback_pending show ?thesis by blast
qed


text \<open>The theorem for \<^verbatim>\<open>/expenses\<close> sent by user \<^verbatim>\<open>"42"\<close>, who has a pending row.\<close>

theorem commands_leave_pending_witness:
  "Expenses \<noteq> Add
   \<and> pending_expenses example_db alice = Some lunch
   \<and> pending_expenses (snd (handle_command Expenses all_ok example_clock (Some alice) [] example_db))
        alice = Some lunch
   \<and> custom_of (snd (handle_command Expenses all_ok example_clock (Some alice) [] example_db)) bob =
       [[0x41], [0x42], [0x43]]"
proof -
  have "pending_expenses example_db alice = Some lunch"
    by (simp add: example_db_def alice_def bob_def)
  with commands_leave_pending [of Expenses all_ok example_clock "Some alice" "[]" example_db]
  show ?thesis
    by (simp add: custom_of_bob)
qed


section \<open>Two presses for one pending row\<close>

text \<open>
  A press that runs alone, its three steps in a row, is \<open>cat_callback\<close>; threads that
  have finished do not move.
\<close>

lemma cat_step_alone:
  "interleave \<lparr>press_responses = r, press_clock = c, press_sender = sender, press_data = data\<rparr> e2
     [False, False, False] (Begun, t2, d) =
   (Finished (fst (cat_callback r c sender data d)), t2, snd (cat_callback r c sender data d))"
  by (simp add: cat_callback_def Let_def split_def split: option.splits)

lemma interleave_finished:
  "interleave e1 e2 bs (Finished o1, Finished o2, d) = (Finished o1, Finished o2, d)"
  by (induction bs) simp_all

lemma interleave_append:
  "interleave e1 e2 (as @ bs) s = interleave e1 e2 bs (interleave e1 e2 as s)"
proof (induction as arbitrary: s)
  case Nil
  show ?case by simp
next
  case (Cons a as)
  obtain t1 t2 d where s: "s = (t1, t2, d)" by (cases s)
  show ?case
    unfolding s by (simp add: Cons.IH split_def Let_def)
qed

lemma cat_step_expired:
  assumes "pending_expenses d (sender_id (press_sender e)) = None"
  shows "cat_step e Begun d =
           (Finished (Returned [AnswerCallbackQuery (Some SessionExpired)]),
            snd (getOrCreateUser (user_ok (press_responses e)) (sender_id (press_sender e)) d))"
  using assms
  by (simp add: cat_read_def Let_def split_def select_pending_def getOrCreateUser_pending)


text \<open>
  C2, as the code has it.  Given a pending row of a user and two presses of a category
  button by that user, when the second press starts after the first has finished, and the
  store carries out the first one's requests, exactly one expense is appended, by the
  first press; the pending row is gone; and the second press finds no pending row and
  reports that the session expired.
\<close>

theorem two_presses_in_turn:
  assumes same: "sender_id (press_sender e1) = t" "sender_id (press_sender e2) = t"
    and pending: "pending_expenses d t = Some p"
    and ok: "user_ok (press_responses e1)" "select_ok (press_responses e1)"
      "insert_ok (press_responses e1)" "delete_ok (press_responses e1)"
      "sweep_answered (press_responses e1)"
    and l: "l = js_index (DEFAULT_CATEGORIES @
                   (if categories_ok (press_responses e1) then custom_of d t else []))
                 (payload_index (press_data e1))"
    and u: "u = (case users d t of None \<Rightarrow> next_id d | Some row \<Rightarrow> row_id row)"
  shows "\<exists>d'. interleave e1 e2 ([False, False, False, True] @ bs) (Begun, Begun, d) =
           (Finished (Returned [EditMessageText (ExpenseSaved (pending_amount p)
                                  (pending_description p) l),
                                AnswerCallbackQuery None]),
            Finished (Returned [AnswerCallbackQuery (Some SessionExpired)]), d')
         \<and> expense d' = expense d @
              [\<lparr>user_id = u, expense_amount = pending_amount p,
                expense_description = pending_description p, category = l,
                expense_created_at = now (press_clock e1)\<rparr>]
         \<and> pending_expenses d' t = None"
proof -
  obtain r c sender data where
    e1: "e1 = \<lparr>press_responses = r, press_clock = c, press_sender = sender, press_data = data\<rparr>"
    by (cases e1)
  from same(1) have t: "sender_id sender = t" by (simp add: e1)
  from pending ok have sel: "select_pending (select_ok r) (sender_id sender) d = Some p"
    by (simp add: e1 t select_pending_def)
  from getOrCreateUser_found [of t d] u obtain row where
    row: "fst (getOrCreateUser True t d) = Some row" "row_id row = u"
    by auto
  define d1 where "d1 = snd (cat_callback r c sender data d)"
  have out1: "fst (cat_callback r c sender data d) =
      Returned [EditMessageText (ExpenseSaved (pending_amount p) (pending_description p) l),
                AnswerCallbackQuery None]"
    using ok row
    by (simp add: e1 t l cat_callback_commit [OF sel] cat_commit_out)
  have exp1: "expense d1 = expense d @
              [\<lparr>user_id = u, expense_amount = pending_amount p,
                expense_description = pending_description p, category = l,
                expense_created_at = now c\<rparr>]"
    using ok row
    by (simp add: d1_def e1 t l cat_callback_commit [OF sel] cat_commit_expense
          getOrCreateUser_frame)
  have pen1: "pending_expenses d1 t = None"
    using ok row
    by (simp add: d1_def e1 t cat_callback_commit [OF sel] cat_commit_pending)
  define d2 where "d2 = snd (getOrCreateUser (user_ok (press_responses e2)) t d1)"
  have first: "interleave e1 e2 [False, False, False] (Begun, Begun, d) =
      (Finished (fst (cat_callback r c sender data d)), Begun, d1)"
    unfolding e1 d1_def by (rule cat_step_alone)
  have second: "cat_step e2 Begun d1 =
      (Finished (Returned [AnswerCallbackQuery (Some SessionExpired)]), d2)"
    using pen1 same(2) by (simp add: cat_step_expired d2_def del: cat_step.simps)
  have split: "[False, False, False, True] @ bs = [False, False, False] @ (True # bs)"
    by simp
  have "interleave e1 e2 ([False, False, False, True] @ bs) (Begun, Begun, d) =
      interleave e1 e2 (True # bs) (interleave e1 e2 [False, False, False] (Begun, Begun, d))"
    by (simp only: split interleave_append)
  also have "\<dots> = interleave e1 e2 bs
      (Finished (fst (cat_callback r c sender data d)),
       Finished (Returned [AnswerCallbackQuery (Some SessionExpired)]), d2)"
    by (simp only: first) (simp add: second del: cat_step.simps)
  also have "\<dots> = (Finished (fst (cat_callback r c sender data d)),
       Finished (Returned [AnswerCallbackQuery (Some SessionExpired)]), d2)"
    by (rule interleave_finished)
  finally have run: "interleave e1 e2 ([False, False, False, True] @ bs) (Begun, Begun, d) =
      (Finished (Returned [EditMessageText (ExpenseSaved (pending_amount p)
                                  (pending_description p) l),
                           AnswerCallbackQuery None]),
       Finished (Returned [AnswerCallbackQuery (Some SessionExpired)]), d2)"
    by (simp only: out1)
  moreover have "expense d2 = expense d @
              [\<lparr>user_id = u, expense_amount = pending_amount p,
                expense_description = pending_description p, category = l,
                expense_created_at = now (press_clock e1)\<rparr>]"
    by (simp add: d2_def getOrCreateUser_frame exp1 e1)
  moreover have "pending_expenses d2 t = None"
    by (simp add: d2_def getOrCreateUser_frame pen1)
  ultimately show ?thesis by blast
qed


text \<open>The theorem for user \<^verbatim>\<open>"42"\<close> pressing twice, one press after the other.\<close>

theorem two_presses_in_turn_witness:
  "sender_id (press_sender alice_press) = alice
   \<and> pending_expenses example_db alice = Some lunch
   \<and> fst (snd (interleave alice_press alice_press [False, False, False, True, True, True]
          (Begun, Begun, example_db))) =
       Finished (Returned [AnswerCallbackQuery (Some SessionExpired)])
   \<and> length (expense (snd (snd (interleave alice_press alice_press
          [False, False, False, True, True, True] (Begun, Begun, example_db))))) = 1"
proof -
  have same: "sender_id (press_sender alice_press) = alice"
    by (simp add: alice_press_def sender_id_def)
  have pending: "pending_expenses example_db alice = Some lunch"
    by (simp add: example_db_def alice_def bob_def)
  have ok: "user_ok (press_responses alice_press)" "select_ok (press_responses alice_press)"
    "insert_ok (press_responses alice_press)" "delete_ok (press_responses alice_press)"
    "sweep_answered (press_responses alice_press)"
    by (simp_all add: alice_press_def all_ok_def)
  from two_presses_in_turn [OF same same pending ok refl refl, of "[True, True]"] same pending
  show ?thesis
    by (auto simp: example_db_def)
qed

text \<open>
  C2 as the claim states it fails: reading the pending row and deleting it are two
  requests, with a suspension between them.  When the two presses take their steps in
  turn, both read the pending row before either deletes it, both append an expense, and
  neither reports that the session expired.
\<close>

theorem two_presses_double_commit_counterexample:
  "pending_expenses example_db alice = Some lunch
   \<and> fst (interleave alice_press alice_press [False, True, False, True, False, True]
          (Begun, Begun, example_db)) =
       Finished (Returned [EditMessageText (ExpenseSaved 50 [0x6C, 0x75, 0x6E, 0x63, 0x68]
                             (Some [0xD83C, 0xDF54, 0x20, 0x46, 0x6F, 0x6F, 0x64])),
                           AnswerCallbackQuery None])
   \<and> fst (snd (interleave alice_press alice_press [False, True, False, True, False, True]
          (Begun, Begun, example_db))) =
       Finished (Returned [EditMessageText (ExpenseSaved 50 [0x6C, 0x75, 0x6E, 0x63, 0x68]
                             (Some [0xD83C, 0xDF54, 0x20, 0x46, 0x6F, 0x6F, 0x64])),
                           AnswerCallbackQuery None])
   \<and> length (expense (snd (snd (interleave alice_press alice_press
          [False, True, False, True, False, True] (Begun, Begun, example_db))))) = 2"
  by (simp add: alice_press_def cat_defs store_defs string_defs example_defs
        DEFAULT_CATEGORIES_def Let_def)



end
